theory Spec2Isabelle
  imports Main
begin

section \<open>Python values, strings and exceptions\<close>

text \<open>
  The spider of \<^verbatim>\<open>src/scraping.py\<close> (class \<^verbatim>\<open>CollegesSpider\<close>) keeps every college in
  a Python dict whose values are strings, \<^verbatim>\<open>None\<close>, integers, lists and nested dicts.
  A dict is a map from its string keys; HOL equality of two maps is Python's \<^verbatim>\<open>==\<close> of
  two dicts (same keys, equal values), which does not look at the insertion order.
  Strings are lists of 8-bit characters, read as the code points below 256.
\<close>

datatype pyval =
    PNone
  | PInt int
  | PStr string
  | PList "pyval list"
  | PDict "string \<Rightarrow> pyval option"

type_synonym pydict = "string \<Rightarrow> pyval option"

datatype error =
    AttributeError
  | KeyError
  | TypeError
  | ValueError

text \<open>\<^verbatim>\<open>str(e)\<close> of the exceptions the handlers can meet (CPython's wording).\<close>

fun str_error :: "error \<Rightarrow> string" where
  "str_error AttributeError = ''object has no attribute''"
| "str_error KeyError = ''key''"
| "str_error TypeError = ''unsupported operand''"
| "str_error ValueError = ''too many values to unpack (expected 2)''"

text \<open>The truth value of \<^verbatim>\<open>x\<close> in \<^verbatim>\<open>if x\<close>, for \<^verbatim>\<open>x\<close> a string or \<^verbatim>\<open>None\<close>.\<close>

fun truthy :: "string option \<Rightarrow> bool" where
  "truthy None = False"
| "truthy (Some s) = (s \<noteq> [])"

text \<open>\<^verbatim>\<open>str.strip()\<close>: the whitespace code points below 256.\<close>

definition is_space :: "char \<Rightarrow> bool" where
  "is_space c = ((of_char c :: nat) \<in> {9, 10, 11, 12, 13, 28, 29, 30, 31, 32, 133, 160})"

definition strip :: "string \<Rightarrow> string" where
  "strip s = rev (dropWhile is_space (rev (dropWhile is_space s)))"

text \<open>\<^verbatim>\<open>x.strip() if x else None\<close>, the idiom of most fields and of \<^verbatim>\<open>safe_extract\<close>.\<close>

fun strip_or_none :: "string option \<Rightarrow> string option" where
  "strip_or_none None = None"
| "strip_or_none (Some s) = (if s = [] then None else Some (strip s))"

fun opt_val :: "string option \<Rightarrow> pyval" where
  "opt_val None = PNone"
| "opt_val (Some s) = PStr s"

text \<open>
  \<^verbatim>\<open>d.get(k)\<close> of a value that may be missing: \<^verbatim>\<open>None\<close> unless it is a dict that
  has the key.
\<close>

fun item_at :: "pyval option \<Rightarrow> string \<Rightarrow> pyval option" where
  "item_at (Some (PDict d)) k = d k"
| "item_at _ k = None"

text \<open>\<^verbatim>\<open>s.replace(c, "")\<close> for a one-character \<^verbatim>\<open>c\<close>.\<close>

definition remove_char :: "char \<Rightarrow> string \<Rightarrow> string" where
  "remove_char c s = filter (\<lambda>x. x \<noteq> c) s"

text \<open>\<^verbatim>\<open>str.lower()\<close> on the code points below 256.\<close>

definition lower_char :: "char \<Rightarrow> char" where
  "lower_char c =
     (let n = (of_char c :: nat)
      in if (65 \<le> n \<and> n \<le> 90) \<or> (192 \<le> n \<and> n \<le> 222 \<and> n \<noteq> 215)
         then char_of (n + 32) else c)"

definition lower :: "string \<Rightarrow> string" where
  "lower s = map lower_char s"

text \<open>\<^verbatim>\<open>sub in s\<close> for strings.\<close>

fun contains :: "string \<Rightarrow> string \<Rightarrow> bool" where
  "contains sub [] = (sub = [])"
| "contains sub (c # cs) = (take (length sub) (c # cs) = sub \<or> contains sub cs)"

text \<open>
  \<^verbatim>\<open>s.split(sep)\<close>; \<^verbatim>\<open>acc\<close> holds the current piece, reversed. Both call sites pass a
  separator that is not empty.
\<close>

fun split_acc :: "string \<Rightarrow> string \<Rightarrow> string \<Rightarrow> string list" where
  "split_acc sep acc [] = [rev acc]"
| "split_acc sep acc (c # cs) =
     (if take (length sep) (c # cs) = sep
      then rev acc # split_acc sep [] (drop (length sep - 1) cs)
      else split_acc sep (c # acc) cs)"

definition split :: "string \<Rightarrow> string \<Rightarrow> string list" where
  "split s sep = split_acc sep [] s"

section \<open>A listing block and \<^verbatim>\<open>extract_college_data\<close>\<close>

text \<open>
  A listing block (\<^verbatim>\<open>div.collegeCardBox\<close>) is what the selectors of
  \<^verbatim>\<open>extract_college_data\<close> and of \<^verbatim>\<open>parse\<close> read from it: the result of each
  \<^verbatim>\<open>.get()\<close> is a string or \<^verbatim>\<open>None\<close>. \<^verbatim>\<open>b_info_lis\<close> has, for every
  \<^verbatim>\<open>li\<close> of the info list, the \<^verbatim>\<open>src\<close> of its image and its text nodes;
  \<^verbatim>\<open>b_exam\<close> is \<^verbatim>\<open>None\<close> when no exam image matches, else the main exam text and the
  tooltip text; \<^verbatim>\<open>b_rank_publisher\<close> is the result of \<^verbatim>\<open>re_first\<close>;
  \<^verbatim>\<open>b_col_md_12\<close> says whether the block also has the class \<^verbatim>\<open>col-md-12\<close>.
\<close>

record block =
  b_title :: "string option"
  b_location :: "string option"
  b_info_lis :: "(string option \<times> string list) list"
  b_ranking :: "string option"
  b_rank_publisher :: "string option"
  b_fees :: "string option"
  b_accreditation :: "string option"
  b_avg_package :: "string option"
  b_exam :: "(string option \<times> string option) option"
  b_description :: "string option"
  b_link :: "string option"
  b_col_md_12 :: bool

text \<open>
  Lines 146-151. Unpacking \<^verbatim>\<open>location_info.split(", ")\<close> into two names raises
  \<^verbatim>\<open>ValueError\<close> unless the split has exactly two pieces.
\<close>

definition city_state :: "string option \<Rightarrow> error + (string option \<times> string option)" where
  "city_state location_info =
     (if truthy location_info
      then (case location_info of
              None \<Rightarrow> Inr (None, None)
            | Some loc \<Rightarrow>
                if contains '', '' loc
                then (case split loc '', '' of
                        [c, st] \<Rightarrow> Inr (Some c, Some st)
                      | _ \<Rightarrow> Inl ValueError)
                else Inr (Some loc, None))
      else Inr (None, None))"

text \<open>Lines 155-162: the first \<^verbatim>\<open>li\<close> whose image is the flag decides, then \<^verbatim>\<open>break\<close>.\<close>

fun ownership_of :: "(string option \<times> string list) list \<Rightarrow> string option" where
  "ownership_of [] = None"
| "ownership_of ((img_src, ownership_texts) # lis) =
     (if truthy img_src \<and> (case img_src of None \<Rightarrow> False
                               | Some src \<Rightarrow> contains ''flag.29bda52542d4.svg'' src)
      then (if ownership_texts = [] then None else Some (strip (last ownership_texts)))
      else ownership_of lis)"

text \<open>
  Lines 190-213. \<^verbatim>\<open>list(set(exams))\<close> removes duplicates and leaves the order to the
  interpreter; the model keeps the order of \<^verbatim>\<open>remdups\<close>.
\<close>

definition exams_of :: "(string option \<times> string option) option \<Rightarrow> string list" where
  "exams_of exam_li =
     (case exam_li of
        None \<Rightarrow> []
      | Some (main_exam, tooltip_exams_text) \<Rightarrow>
          remdups
            ((case strip_or_none main_exam of
                None \<Rightarrow> []
              | Some m \<Rightarrow> if m = [] then [] else [m])
             @ (if truthy tooltip_exams_text
                then (case tooltip_exams_text of
                        None \<Rightarrow> []
                      | Some t \<Rightarrow> filter (\<lambda>e. e \<noteq> []) (map strip (split t '','')))
                else [])))"

text \<open>The body of the \<^verbatim>\<open>try\<close> (lines 138-232): the dict, or the exception raised.\<close>

definition extract_body :: "block \<Rightarrow> error + pydict" where
  "extract_body college =
     (let title = (if truthy (b_title college)
                   then (case b_title college of None \<Rightarrow> ''Unknown Title'' | Some t \<Rightarrow> strip t)
                   else ''Unknown Title'')
      in case city_state (b_location college) of
           Inl e \<Rightarrow> Inl e
         | Inr (city, state) \<Rightarrow>
             Inr (Map.empty
               (''title'' \<mapsto> PStr title,
                ''city'' \<mapsto> opt_val city,
                ''state'' \<mapsto> opt_val state,
                ''ownership'' \<mapsto> opt_val (ownership_of (b_info_lis college)),
                ''ranking'' \<mapsto> opt_val (if truthy (b_ranking college)
                    then (case b_ranking college of None \<Rightarrow> None
                          | Some r \<Rightarrow> Some (strip (remove_char (CHR ''#'') r)))
                    else None),
                ''rank_publisher'' \<mapsto> opt_val (b_rank_publisher college),
                ''fees'' \<mapsto> opt_val (strip_or_none (b_fees college)),
                ''accreditation'' \<mapsto> opt_val (strip_or_none (b_accreditation college)),
                ''avg_package'' \<mapsto> opt_val (strip_or_none (b_avg_package college)),
                ''exams'' \<mapsto> PList (map PStr (exams_of (b_exam college))),
                ''description'' \<mapsto> opt_val (strip_or_none (b_description college)))))"

text \<open>Lines 135-236: \<^verbatim>\<open>except Exception\<close> turns every exception into the error record.\<close>

definition extract_college_data :: "block \<Rightarrow> pydict" where
  "extract_college_data college =
     (case extract_body college of
        Inr d \<Rightarrow> d
      | Inl e \<Rightarrow> Map.empty
          (''title'' \<mapsto> PStr ''Error in extraction'',
           ''error'' \<mapsto> PStr (str_error e)))"

section \<open>Documents, requests and the spider's state\<close>

text \<open>
  A fetched document is what the handlers' selectors read from it.
  \<^verbatim>\<open>doc_card_boxes\<close> are the elements matching \<^verbatim>\<open>div.collegeCardBox\<close>, in the
  order in which \<^verbatim>\<open>list(college_blocks)\<close> of line 96 enumerates them (the order of a
  Python set is the interpreter's); \<^verbatim>\<open>doc_containers\<close> counts the matches of
  \<^verbatim>\<open>div.container\<close>. The results of \<^verbatim>\<open>extract_overview_tab\<close>,
  \<^verbatim>\<open>extract_highlights\<close>, \<^verbatim>\<open>extract_courses\<close> and \<^verbatim>\<open>extract_faqs\<close> are taken as
  given values: they read the document only and have no effect on the spider.
  A navigation link has the first text node under it and its \<^verbatim>\<open>href\<close>; a block of
  a tab page has the text of its \<^verbatim>\<open>h2\<close> and its content markup.
\<close>

record nav_tab =
  nt_text :: "string option"
  nt_href :: "string option"

record document =
  doc_body :: string
  doc_card_boxes :: "block list"
  doc_containers :: nat
  doc_overview :: pyval
  doc_facilities :: pyval
  doc_highlights :: pyval
  doc_courses :: pyval
  doc_faqs :: pyval
  doc_nav_tabs :: "nav_tab list"
  doc_tab_blocks :: "(string option \<times> string option) list"

text \<open>
  The keys the code puts into \<^verbatim>\<open>Request.meta\<close>. \<^verbatim>\<open>m_college_data\<close> is the address of
  the college's dict: line 271 passes the dict itself, not a copy.
\<close>

record meta =
  m_page :: "int option"
  m_retry_count :: "int option"
  m_download_delay :: "int option"
  m_dont_retry :: "bool option"
  m_college_data :: "nat option"
  m_page_number :: "int option"
  m_block_number :: "int option"
  m_college_link :: "string option"
  m_download_timeout :: "int option"
  m_tab_title :: "string option"

definition no_meta :: meta where
  "no_meta = \<lparr>m_page = None, m_retry_count = None, m_download_delay = None,
     m_dont_retry = None, m_college_data = None, m_page_number = None,
     m_block_number = None, m_college_link = None, m_download_timeout = None,
     m_tab_title = None\<rparr>"

datatype url = Listing int | Follow url string

datatype callback = Cb_parse | Cb_parse_college_page | Cb_parse_tab_content

datatype errback = Eb_handle_error

record request =
  r_url :: url
  r_callback :: callback
  r_errback :: "errback option"
  r_meta :: meta
  r_priority :: int

record response =
  resp_url :: url
  resp_meta :: meta
  resp_doc :: document

text \<open>What a handler yields: a request to schedule, or a finished college's dict.\<close>

datatype product = Req request | Item nat

record progress =
  completed_pages :: "int set"
  completed_colleges :: "string set"
  failed_colleges :: "string set"

text \<open>
  The attributes of the spider that its handlers read or write, and the store of the
  college dicts: \<^verbatim>\<open>store s r\<close> is the dict at address \<^verbatim>\<open>r\<close>, \<^verbatim>\<open>next_ref\<close> the next
  free address. \<^verbatim>\<open>page_attempts\<close> is a \<^verbatim>\<open>defaultdict(int)\<close>.
\<close>

record spider =
  failed_pages :: "int option set"
  page_attempts :: "int \<Rightarrow> int"
  colleges_found :: int
  ledger :: progress
  store :: "nat \<Rightarrow> pydict"
  next_ref :: nat

text \<open>
  Lines 311-321. The name of the file is built from the clock at line 48; what the
  file system holds under that name is the environment's: \<^verbatim>\<open>None\<close> stands for
  \<^verbatim>\<open>FileNotFoundError\<close>, \<^verbatim>\<open>Some p\<close> for a JSON file with the three keys, each list
  read as the set of its members (the handlers only ask for membership).
\<close>

definition load_progress :: "progress option \<Rightarrow> progress" where
  "load_progress file =
     (case file of
        Some p \<Rightarrow> p
      | None \<Rightarrow> \<lparr>completed_pages = {}, completed_colleges = {}, failed_colleges = {}\<rparr>)"

text \<open>Lines 34-58.\<close>

definition init :: "progress option \<Rightarrow> spider" where
  "init file = \<lparr>failed_pages = {}, page_attempts = (\<lambda>_. 0), colleges_found = 0,
     ledger = load_progress file, store = (\<lambda>_. Map.empty), next_ref = 0\<rparr>"

text \<open>Assignment to the dict at an address, and \<^verbatim>\<open>d.pop(k)\<close> of a key that is there.\<close>

definition put :: "spider \<Rightarrow> nat \<Rightarrow> pydict \<Rightarrow> spider" where
  "put s r d = s\<lparr>store := (store s)(r := d)\<rparr>"

definition pop_key :: "pydict \<Rightarrow> string \<Rightarrow> pydict" where
  "pop_key d k = d(k := None)"

text \<open>Lines 63-78.\<close>

definition start_requests :: "request list" where
  "start_requests =
     map (\<lambda>page. \<lparr>r_url = Listing page, r_callback = Cb_parse,
                   r_errback = Some Eb_handle_error,
                   r_meta = no_meta\<lparr>m_page := Some page, m_dont_retry := Some False\<rparr>,
                   r_priority = 0\<rparr>)
         [1 .. 81]"

text \<open>
  The result of a handler. A handler with a \<^verbatim>\<open>yield\<close> in its body is a generator:
  what it yields goes to the engine, the value of a \<^verbatim>\<open>return\<close> statement ends the
  generator and is kept here as \<^verbatim>\<open>res_returned\<close>; an exception ends it too, after
  the outputs already yielded.
\<close>

record result =
  res_spider :: spider
  res_yielded :: "product list"
  res_returned :: "request option"
  res_raised :: "error option"

definition yielding :: "spider \<Rightarrow> product list \<Rightarrow> result" where
  "yielding s ys = \<lparr>res_spider = s, res_yielded = ys, res_returned = None, res_raised = None\<rparr>"

definition returning :: "spider \<Rightarrow> request option \<Rightarrow> result" where
  "returning s r = \<lparr>res_spider = s, res_yielded = [], res_returned = r, res_raised = None\<rparr>"

definition raising :: "spider \<Rightarrow> product list \<Rightarrow> error \<Rightarrow> result" where
  "raising s ys e = \<lparr>res_spider = s, res_yielded = ys, res_returned = None, res_raised = Some e\<rparr>"

section \<open>The listing handler\<close>

text \<open>Lines 493-500.\<close>

definition is_valid_page :: "response \<Rightarrow> bool" where
  "is_valid_page resp =
     (let has_college_blocks = (doc_card_boxes (resp_doc resp) \<noteq> []);
          has_expected_structure = (0 < doc_containers (resp_doc resp));
          content_length = (1000 < length (doc_body (resp_doc resp)))
      in has_college_blocks \<and> has_expected_structure \<and> content_length)"

text \<open>
  Lines 508-535: the spider with the page's counter incremented, and the request built
  when the new count is at most 3 (\<^verbatim>\<open>None\<close> otherwise: the function falls off its end).
  The request has no errback.
\<close>

definition retry_page :: "spider \<Rightarrow> response \<Rightarrow> error + (spider \<times> request option)" where
  "retry_page s resp =
     (case m_page (resp_meta resp) of
        None \<Rightarrow> Inl KeyError
      | Some page_number \<Rightarrow>
          let s' = s\<lparr>page_attempts := (page_attempts s)
                       (page_number := page_attempts s page_number + 1)\<rparr>;
              retry_count = page_attempts s' page_number
          in if retry_count \<le> 3
             then Inr (s', Some \<lparr>r_url = resp_url resp, r_callback = Cb_parse,
                    r_errback = None,
                    r_meta = no_meta\<lparr>m_page := Some page_number,
                      m_retry_count := Some retry_count,
                      m_download_delay := Some (2 ^ nat retry_count),
                      m_dont_retry := Some False\<rparr>,
                    r_priority = 10\<rparr>)
             else Inr (s', None))"

text \<open>Lines 502-506.\<close>

definition handle_invalid_page :: "spider \<Rightarrow> response \<Rightarrow> error + (spider \<times> request option)" where
  "handle_invalid_page s resp =
     (case m_page (resp_meta resp) of
        None \<Rightarrow> Inl KeyError
      | Some page_number \<Rightarrow> retry_page s resp)"

text \<open>\<^verbatim>\<open>return f(response)\<close> inside the generator \<^verbatim>\<open>parse\<close>.\<close>

definition return_of :: "spider \<Rightarrow> error + (spider \<times> request option) \<Rightarrow> result" where
  "return_of s x = (case x of Inl e \<Rightarrow> raising s [] e | Inr (s', r) \<Rightarrow> returning s' r)"

text \<open>
  Lines 112-133, the loop over the blocks, \<^verbatim>\<open>index\<close> counting from 1. Every block
  gets a new dict from \<^verbatim>\<open>extract_college_data\<close>; a request for the detail page is
  yielded when the link is a non-empty string that is not in the ledger's completed set.
\<close>

fun process_blocks :: "spider \<Rightarrow> response \<Rightarrow> int \<Rightarrow> int \<Rightarrow> block list \<Rightarrow> spider \<times> product list" where
  "process_blocks s resp page_number index [] = (s, [])"
| "process_blocks s resp page_number index (college # rest) =
     (let r = next_ref s;
          s1 = (put s r (extract_college_data college))\<lparr>next_ref := Suc r\<rparr>;
          out = (case b_link college of
                   None \<Rightarrow> []
                 | Some college_link \<Rightarrow>
                     if college_link \<noteq> [] \<and> college_link \<notin> completed_colleges (ledger s)
                     then [Req \<lparr>r_url = Follow (resp_url resp) college_link,
                             r_callback = Cb_parse_college_page,
                             r_errback = Some Eb_handle_error,
                             r_meta = no_meta\<lparr>m_college_data := Some r,
                               m_page_number := Some page_number,
                               m_block_number := Some index,
                               m_college_link := Some college_link,
                               m_dont_retry := Some False,
                               m_download_timeout := Some 180\<rparr>,
                             r_priority = 5\<rparr>]
                     else []);
          (s2, outs) = process_blocks s1 resp page_number (index + 1) rest
      in (s2, out @ outs))"

text \<open>Lines 80-133.\<close>

definition parse :: "spider \<Rightarrow> response \<Rightarrow> result" where
  "parse s resp =
     (case m_page (resp_meta resp) of
        None \<Rightarrow> raising s [] KeyError
      | Some page_number \<Rightarrow>
          if \<not> is_valid_page resp then return_of s (handle_invalid_page s resp)
          else
            let college_blocks = filter b_col_md_12 (doc_card_boxes (resp_doc resp));
                block_count = int (length college_blocks);
                s1 = s\<lparr>colleges_found := colleges_found s + block_count\<rparr>
            in if block_count < 10 \<and> page_attempts s1 page_number < 3
               then return_of s1 (retry_page s1 resp)
               else
                 let s2 = (if block_count < 10
                           then s1\<lparr>failed_pages := insert (Some page_number) (failed_pages s1)\<rparr>
                           else s1);
                     (s3, outs) = process_blocks s2 resp page_number 1 college_blocks
                 in yielding s3 outs)"

section \<open>The detail handler and the tab handler\<close>

text \<open>
  Lines 252-257, the list comprehension: \<^verbatim>\<open>tab.css("::text").get().strip()\<close> raises
  \<^verbatim>\<open>AttributeError\<close> on a link without a text node.
\<close>

definition excluded_tabs :: "string list" where
  "excluded_tabs = [''Gallery'', ''Reviews'', ''News'', ''QnA'']"

fun tabs_to_fetch :: "nav_tab list \<Rightarrow> error + nav_tab list" where
  "tabs_to_fetch [] = Inr []"
| "tabs_to_fetch (tab # nav_tabs) =
     (case nt_text tab of
        None \<Rightarrow> Inl AttributeError
      | Some t \<Rightarrow>
          (case tabs_to_fetch nav_tabs of
             Inl e \<Rightarrow> Inl e
           | Inr tabs \<Rightarrow> Inr (if strip t \<notin> set excluded_tabs then tab # tabs else tabs)))"

text \<open>
  Lines 261-275, the loop that yields one request per tab, with the requests yielded
  before an exception. The requests carry the address of the college's dict, and no
  errback. \<^verbatim>\<open>response.follow\<close> is taken to build a request from any string and to
  raise \<^verbatim>\<open>ValueError\<close> on \<^verbatim>\<open>None\<close>.
\<close>

fun tab_requests :: "response \<Rightarrow> nat \<Rightarrow> nav_tab list \<Rightarrow> product list \<times> error option" where
  "tab_requests resp r [] = ([], None)"
| "tab_requests resp r (tab # tabs) =
     (case nt_text tab of
        None \<Rightarrow> ([], Some AttributeError)
      | Some t \<Rightarrow>
          (case nt_href tab of
             None \<Rightarrow> ([], Some ValueError)
           | Some tab_url \<Rightarrow>
               (let (outs, e) = tab_requests resp r tabs
                in (Req \<lparr>r_url = Follow (resp_url resp) tab_url,
                          r_callback = Cb_parse_tab_content,
                          r_errback = None,
                          r_meta = no_meta\<lparr>m_college_data := Some r,
                            m_tab_title := Some (strip t)\<rparr>,
                          r_priority = 0\<rparr> # outs, e))))"

text \<open>Lines 238-279.\<close>

definition parse_college_page :: "spider \<Rightarrow> response \<Rightarrow> result" where
  "parse_college_page s resp =
     (case m_college_data (resp_meta resp) of
        None \<Rightarrow> raising s [] KeyError
      | Some r \<Rightarrow>
          let doc = resp_doc resp;
              college_data = (store s r)
                (''overviewTab'' \<mapsto> doc_overview doc,
                 ''facilities'' \<mapsto> doc_facilities doc,
                 ''highlights'' \<mapsto> doc_highlights doc,
                 ''courses'' \<mapsto> doc_courses doc,
                 ''faqs'' \<mapsto> doc_faqs doc,
                 ''tabs'' \<mapsto> PDict Map.empty);
              s1 = put s r college_data
          in (case tabs_to_fetch (doc_nav_tabs doc) of
                Inl e \<Rightarrow> raising s1 [] e
              | Inr tabs \<Rightarrow>
                  (let tabs_pending = int (length tabs);
                       d2 = college_data(''tabs_pending'' \<mapsto> PInt tabs_pending);
                       s2 = put s1 r d2;
                       (outs, e) = tab_requests resp r tabs
                   in (case e of
                         Some err \<Rightarrow> raising s2 outs err
                       | None \<Rightarrow>
                           yielding s2 (outs @ (if tabs_pending = 0 then [Item r] else []))))))"

text \<open>Line 284.\<close>

definition tab_key_of :: "string \<Rightarrow> string" where
  "tab_key_of tab_title = lower (remove_char (CHR '' '') tab_title) @ ''Tab''"

text \<open>
  Lines 290-300: the sections of a tab page, a title kept once; \<^verbatim>\<open>content\<close> is the
  list built so far.
\<close>

fun tab_content :: "(string \<times> string) list \<Rightarrow> (string option \<times> string option) list \<Rightarrow> (string \<times> string) list" where
  "tab_content content [] = content"
| "tab_content content ((h2, content_html) # blocks) =
     (case (strip_or_none h2, content_html) of
        (Some title, Some html) \<Rightarrow>
          if title \<noteq> [] \<and> html \<noteq> [] \<and> title \<notin> fst ` set content
          then tab_content (content @ [(title, html)]) blocks
          else tab_content content blocks
      | _ \<Rightarrow> tab_content content blocks)"

definition section_val :: "string \<times> string \<Rightarrow> pyval" where
  "section_val p = PDict (Map.empty(''title'' \<mapsto> PStr (fst p), ''content'' \<mapsto> PStr (snd p)))"

definition tab_data_of :: "string \<Rightarrow> document \<Rightarrow> pyval" where
  "tab_data_of tab_title doc =
     PDict (Map.empty
       (''tab'' \<mapsto> PStr tab_title,
        ''content'' \<mapsto> PList (map section_val (tab_content [] (doc_tab_blocks doc)))))"

text \<open>
  Lines 281-309. The dict is the one every tab request of the college points to; line
  306 decrements its counter, lines 307-309 remove the counter and yield the dict when
  it has reached 0.
\<close>

definition parse_tab_content :: "spider \<Rightarrow> response \<Rightarrow> result" where
  "parse_tab_content s resp =
     (case m_college_data (resp_meta resp) of
        None \<Rightarrow> raising s [] KeyError
      | Some r \<Rightarrow>
          (case m_tab_title (resp_meta resp) of
             None \<Rightarrow> raising s [] KeyError
           | Some tab_title \<Rightarrow>
               (let college_data = store s r;
                    tab_key = tab_key_of tab_title;
                    tab_data = tab_data_of tab_title (resp_doc resp)
                in (case college_data ''tabs'' of
                      None \<Rightarrow> raising s [] KeyError
                    | Some (PDict tabs) \<Rightarrow>
                        (let d1 = college_data(''tabs'' \<mapsto> PDict (tabs(tab_key \<mapsto> tab_data)));
                             s1 = put s r d1
                         in (case d1 ''tabs_pending'' of
                               None \<Rightarrow> raising s1 [] KeyError
                             | Some (PInt n) \<Rightarrow>
                                 (let d2 = d1(''tabs_pending'' \<mapsto> PInt (n - 1))
                                  in if n - 1 = 0
                                     then yielding (put s r (pop_key d2 ''tabs_pending'')) [Item r]
                                     else yielding (put s r d2) [])
                             | Some _ \<Rightarrow> raising s1 [] TypeError))
                    | Some _ \<Rightarrow> raising s [] TypeError))))"

section \<open>The error handler\<close>

text \<open>
  \<^verbatim>\<open>self.failed_pages\<close> is the set made at line 39; the only other place that
  touches it is \<^verbatim>\<open>add\<close> at line 106. Line 539 calls \<^verbatim>\<open>append\<close> on it, which a
  Python set does not have, so the attribute lookup raises.
\<close>

definition set_append :: "'a set \<Rightarrow> 'a \<Rightarrow> error + 'a set" where
  "set_append S x = Inl AttributeError"

text \<open>Lines 537-553; the argument is \<^verbatim>\<open>failure.request\<close>.\<close>

definition handle_error :: "spider \<Rightarrow> request \<Rightarrow> result" where
  "handle_error s req =
     (let page = m_page (r_meta req)
      in case set_append (failed_pages s) page of
           Inl e \<Rightarrow> raising s [] e
         | Inr fp \<Rightarrow>
             let s1 = s\<lparr>failed_pages := fp\<rparr>;
                 count = (case m_retry_count (r_meta req) of None \<Rightarrow> 0 | Some c \<Rightarrow> c)
             in if count < 3
                then let retry_count = count + 1
                     in yielding s1
                          [Req (req\<lparr>r_meta := (r_meta req)
                             \<lparr>m_retry_count := Some retry_count,
                              m_download_delay := Some (5 * retry_count)\<rparr>\<rparr>)]
                else yielding s1 [])"

section \<open>The engine\<close>

text \<open>
  The engine around the spider, as far as the handlers see it. It keeps the requests
  in flight; when the download of one ends, it hands the response to the request's
  callback, or the failure to its errback if it has one (a failed request without an
  errback reaches no handler). It schedules the requests a handler yields and passes
  the items on; it reads nothing but what the generator yields, and it logs an exception
  of a handler and goes on with the outputs yielded before it.
\<close>

datatype outcome = Response document | Failure

definition dispatch :: "spider \<Rightarrow> request \<Rightarrow> outcome \<Rightarrow> result" where
  "dispatch s req oc =
     (case oc of
        Response doc \<Rightarrow>
          (let resp = \<lparr>resp_url = r_url req, resp_meta = r_meta req, resp_doc = doc\<rparr>
           in case r_callback req of
                Cb_parse \<Rightarrow> parse s resp
              | Cb_parse_college_page \<Rightarrow> parse_college_page s resp
              | Cb_parse_tab_content \<Rightarrow> parse_tab_content s resp)
      | Failure \<Rightarrow>
          (case r_errback req of
             None \<Rightarrow> yielding s []
           | Some Eb_handle_error \<Rightarrow> handle_error s req))"

fun requests_of :: "product list \<Rightarrow> request list" where
  "requests_of [] = []"
| "requests_of (Req q # ys) = q # requests_of ys"
| "requests_of (Item r # ys) = requests_of ys"

fun items_of :: "product list \<Rightarrow> nat list" where
  "items_of [] = []"
| "items_of (Req q # ys) = items_of ys"
| "items_of (Item r # ys) = r # items_of ys"

record crawl =
  c_spider :: spider
  c_inflight :: "request list"
  c_emitted :: "nat list"
  c_logged :: "error list"

definition start :: "progress option \<Rightarrow> crawl" where
  "start file = \<lparr>c_spider = init file, c_inflight = start_requests, c_emitted = [],
     c_logged = []\<rparr>"

text \<open>
  One step: the download of the \<^verbatim>\<open>i\<close>-th request in flight ends with \<^verbatim>\<open>oc\<close>. Any
  request in flight can be the next to end.
\<close>

definition deliver :: "crawl \<Rightarrow> nat \<times> outcome \<Rightarrow> crawl" where
  "deliver c ev =
     (let i = fst ev
      in if i < length (c_inflight c)
         then let res = dispatch (c_spider c) (c_inflight c ! i) (snd ev)
              in \<lparr>c_spider = res_spider res,
                  c_inflight = take i (c_inflight c) @ drop (Suc i) (c_inflight c)
                               @ requests_of (res_yielded res),
                  c_emitted = c_emitted c @ items_of (res_yielded res),
                  c_logged = c_logged c @ (case res_raised res of None \<Rightarrow> [] | Some e \<Rightarrow> [e])\<rparr>
         else c)"

definition run :: "crawl \<Rightarrow> (nat \<times> outcome) list \<Rightarrow> crawl" where
  "run c evs = foldl deliver c evs"

text \<open>
  The items emitted in a run, each with the request whose response made a handler
  yield it.
\<close>

fun emissions :: "crawl \<Rightarrow> (nat \<times> outcome) list \<Rightarrow> (request \<times> nat) list" where
  "emissions c [] = []"
| "emissions c (ev # evs) =
     (if fst ev < length (c_inflight c)
      then map (Pair (c_inflight c ! fst ev))
             (items_of (res_yielded (dispatch (c_spider c) (c_inflight c ! fst ev) (snd ev))))
      else [])
     @ emissions (deliver c ev) evs"

text \<open>
  The college a request is for. \<^verbatim>\<open>response.follow(href)\<close> builds the URL from the
  URL of the response and the link: a detail request is for the link followed from the
  listing page, a tab request for the link of the detail page it was followed from.
\<close>

fun detail_link :: "url \<Rightarrow> string option" where
  "detail_link (Follow u l) = Some l"
| "detail_link (Listing p) = None"

definition college_of :: "request \<Rightarrow> string option" where
  "college_of q =
     (case r_callback q of
        Cb_parse \<Rightarrow> None
      | Cb_parse_college_page \<Rightarrow> detail_link (r_url q)
      | Cb_parse_tab_content \<Rightarrow>
          (case r_url q of Follow u t \<Rightarrow> detail_link u | Listing p \<Rightarrow> None))"

text \<open>
  The responses to some requests handed to their callbacks one after the other: the
  spider at the end and everything yielded on the way.
\<close>

fun arrive :: "spider \<Rightarrow> (request \<times> document) list \<Rightarrow> spider \<times> product list" where
  "arrive s [] = (s, [])"
| "arrive s ((q, doc) # rest) =
     (let res = dispatch s q (Response doc);
          (s', outs) = arrive (res_spider res) rest
      in (s', res_yielded res @ outs))"

text \<open>The six orders of three things.\<close>

definition orders3 :: "'a \<Rightarrow> 'a \<Rightarrow> 'a \<Rightarrow> 'a list list" where
  "orders3 x y z = [[x, y, z], [x, z, y], [y, x, z], [y, z, x], [z, x, y], [z, y, x]]"

section \<open>Sample inputs\<close>

text \<open>
  Concrete documents, on which the theorems below are run: a listing block with a
  link, a listing page of such blocks that passes \<^verbatim>\<open>is_valid_page\<close>, a detail page
  with given navigation links, and a tab page with one section.
\<close>

definition sample_block :: "string \<Rightarrow> block" where
  "sample_block link = \<lparr>b_title = Some '' AIIMS Delhi '', b_location = Some ''New Delhi, Delhi'',
     b_info_lis = [], b_ranking = Some ''#1'', b_rank_publisher = Some ''NIRF'',
     b_fees = None, b_accreditation = None, b_avg_package = None, b_exam = None,
     b_description = None, b_link = Some link, b_col_md_12 = True\<rparr>"

definition no_doc :: document where
  "no_doc = \<lparr>doc_body = [], doc_card_boxes = [], doc_containers = 0,
     doc_overview = PList [], doc_facilities = PList [], doc_highlights = PDict Map.empty,
     doc_courses = PList [], doc_faqs = PList [], doc_nav_tabs = [], doc_tab_blocks = []\<rparr>"

definition listing_doc :: "string list \<Rightarrow> document" where
  "listing_doc links = no_doc\<lparr>doc_body := replicate 1001 (CHR ''x''),
     doc_card_boxes := map sample_block links, doc_containers := 1\<rparr>"

definition detail_doc :: "(string \<times> string) list \<Rightarrow> document" where
  "detail_doc tabs = no_doc\<lparr>doc_nav_tabs :=
     map (\<lambda>t. \<lparr>nt_text = Some (fst t), nt_href = Some (snd t)\<rparr>) tabs\<rparr>"

definition tab_doc :: "string \<Rightarrow> document" where
  "tab_doc html = no_doc\<lparr>doc_tab_blocks := [(Some ''About'', Some html)]\<rparr>"

definition listing_response :: "int \<Rightarrow> document \<Rightarrow> response" where
  "listing_response page doc = \<lparr>resp_url = Listing page,
     resp_meta = no_meta\<lparr>m_page := Some page, m_dont_retry := Some False\<rparr>, resp_doc = doc\<rparr>"

definition detail_response :: "nat \<Rightarrow> document \<Rightarrow> response" where
  "detail_response r doc = \<lparr>resp_url = Follow (Listing 1) ''/college'',
     resp_meta = no_meta\<lparr>m_college_data := Some r\<rparr>, resp_doc = doc\<rparr>"

definition tab_response :: "nat \<Rightarrow> string \<Rightarrow> document \<Rightarrow> response" where
  "tab_response r tab_title doc = \<lparr>resp_url = Follow (Listing 1) ''/tab'',
     resp_meta = no_meta\<lparr>m_college_data := Some r, m_tab_title := Some tab_title\<rparr>,
     resp_doc = doc\<rparr>"

text \<open>
  The links of a listing page below the expected minimum of 10 blocks, the navigation
  links of two detail pages, and the request that \<^verbatim>\<open>parse_college_page\<close>
  builds for a tab of the sample detail page.
\<close>

definition four_links :: "string list" where
  "four_links = [''/c0'', ''/c1'', ''/c2'', ''/c3'']"

definition three_tabs :: "(string \<times> string) list" where
  "three_tabs = [('' Courses '', ''/courses''), (''Admission'', ''/admission''),
     (''Cut Off'', ''/cutoff'')]"

definition clashing_tabs :: "(string \<times> string) list" where
  "clashing_tabs = [(''Cut Off'', ''/cut-off''), (''CutOff'', ''/cutoff''), (''Fees'', ''/fees'')]"

definition sample_tab_request :: "nat \<Rightarrow> string \<Rightarrow> string \<Rightarrow> request" where
  "sample_tab_request r tab_title href =
     \<lparr>r_url = Follow (Follow (Listing 1) ''/college'') href, r_callback = Cb_parse_tab_content,
      r_errback = None,
      r_meta = no_meta\<lparr>m_college_data := Some r, m_tab_title := Some tab_title\<rparr>,
      r_priority = 0\<rparr>"

text \<open>
  A run: the first listing page comes back with ten blocks, the detail page of its
  first block with the three tabs of \<^verbatim>\<open>three_tabs\<close>, then the first tab page; after
  that either the second tab request fails and the third is answered, or both are
  answered. \<^verbatim>\<open>sample_detail_request\<close> is the request \<^verbatim>\<open>parse\<close> yields for the first
  block.
\<close>

definition ten_links :: "string list" where
  "ten_links = [''/college'', ''/c1'', ''/c2'', ''/c3'', ''/c4'', ''/c5'', ''/c6'', ''/c7'',
     ''/c8'', ''/c9'']"

definition sample_detail_request :: request where
  "sample_detail_request =
     \<lparr>r_url = Follow (Listing 1) ''/college'', r_callback = Cb_parse_college_page,
      r_errback = Some Eb_handle_error,
      r_meta = no_meta\<lparr>m_college_data := Some 0, m_page_number := Some 1,
        m_block_number := Some 1, m_college_link := Some ''/college'',
        m_dont_retry := Some False, m_download_timeout := Some 180\<rparr>,
      r_priority = 5\<rparr>"

definition first_tab_run :: "(nat \<times> outcome) list" where
  "first_tab_run =
     [(0, Response (listing_doc ten_links)), (80, Response (detail_doc three_tabs)),
      (89, Response (tab_doc ''A''))]"

definition failed_tab_run :: "(nat \<times> outcome) list" where
  "failed_tab_run = first_tab_run @ [(89, Failure), (89, Response (tab_doc ''C''))]"

definition all_tabs_run :: "(nat \<times> outcome) list" where
  "all_tabs_run = first_tab_run @ [(89, Response (tab_doc ''B'')), (89, Response (tab_doc ''C''))]"

text \<open>A progress file in which the first college of the sample listing page is completed.\<close>

definition one_done :: progress where
  "one_done = \<lparr>completed_pages = {}, completed_colleges = {''/college''}, failed_colleges = {}\<rparr>"

section \<open>The bookkeeping of one college over a run\<close>

text \<open>
  A request carries the dict at address \<^verbatim>\<open>r\<close> for a callback when that is its callback
  and its meta holds the address. For a state of the crawl, \<^verbatim>\<open>in_flight\<close> counts the
  requests in flight that carry a dict for a callback, \<^verbatim>\<open>times_emitted\<close> counts how
  often the dict was yielded as an item.
\<close>

definition carries :: "callback \<Rightarrow> nat \<Rightarrow> request \<Rightarrow> bool" where
  "carries cb r q = (r_callback q = cb \<and> m_college_data (r_meta q) = Some r)"

definition in_flight :: "crawl \<Rightarrow> callback \<Rightarrow> nat \<Rightarrow> nat" where
  "in_flight c cb r = length (filter (carries cb r) (c_inflight c))"

definition times_emitted :: "crawl \<Rightarrow> nat \<Rightarrow> nat" where
  "times_emitted c r = count_list (c_emitted c) r"

text \<open>
  The invariant of a run, for one dict: \<^verbatim>\<open>d\<close> detail requests and \<^verbatim>\<open>t\<close> tab requests
  in flight, \<^verbatim>\<open>e\<close> emissions, the values \<^verbatim>\<open>p\<close> under \<^verbatim>\<open>tabs_pending\<close> and \<^verbatim>\<open>tv\<close>
  under \<^verbatim>\<open>tabs\<close>. At most one detail request; while it is in flight there is no tab
  request and no emission; while tab requests are in flight the dict has not been
  emitted and its counter is at least their number; the counter is never negative.
\<close>

definition ref_ok :: "nat \<Rightarrow> nat \<Rightarrow> nat \<Rightarrow> pyval option \<Rightarrow> pyval option \<Rightarrow> bool" where
  "ref_ok d t e p tv =
     (d \<le> 1
      \<and> (0 < d \<longrightarrow> t = 0 \<and> e = 0)
      \<and> (0 < t \<longrightarrow> e = 0 \<and> (\<exists>n tabs. p = Some (PInt n) \<and> int t \<le> n \<and> tv = Some (PDict tabs)))
      \<and> e \<le> 1
      \<and> (\<forall>n. p = Some (PInt n) \<longrightarrow> 0 \<le> n))"

text \<open>
  The invariant of the crawl: addresses in requests and emissions are allocated, and
  every dict is in order.
\<close>

definition sound :: "crawl \<Rightarrow> bool" where
  "sound c =
     ((\<forall>q \<in> set (c_inflight c). \<forall>r. m_college_data (r_meta q) = Some r \<longrightarrow> r < next_ref (c_spider c))
      \<and> (\<forall>r \<in> set (c_emitted c). r < next_ref (c_spider c))
      \<and> (\<forall>r. ref_ok (in_flight c Cb_parse_college_page r) (in_flight c Cb_parse_tab_content r)
                 (times_emitted c r) (store (c_spider c) r ''tabs_pending'')
                 (store (c_spider c) r ''tabs'')))"

text \<open>
  A dict that can no longer be completed: it has been allocated, no detail request
  for it is in flight, it has not been emitted, and fewer tab requests are in flight
  for it than its counter says.
\<close>

definition stuck :: "crawl \<Rightarrow> nat \<Rightarrow> bool" where
  "stuck c r =
     (r < next_ref (c_spider c) \<and> in_flight c Cb_parse_college_page r = 0 \<and> times_emitted c r = 0
      \<and> (case store (c_spider c) r ''tabs_pending'' of
            Some (PInt n) \<Rightarrow> int (in_flight c Cb_parse_tab_content r) < n
          | _ \<Rightarrow> False))"

text \<open>
  The invariant of a run for the ledger \<^verbatim>\<open>p\<close> loaded at the start: the ledger is
  still \<^verbatim>\<open>p\<close>, and every detail or tab request in flight is for a college that is not
  in the completed set of \<^verbatim>\<open>p\<close>.
\<close>

definition clean :: "progress \<Rightarrow> crawl \<Rightarrow> bool" where
  "clean p c =
     (ledger (c_spider c) = p
      \<and> (\<forall>q \<in> set (c_inflight c). r_callback q \<noteq> Cb_parse \<longrightarrow>
            (case college_of q of None \<Rightarrow> False | Some l \<Rightarrow> l \<notin> completed_colleges p)))"

section \<open>What each handler does to the state\<close>

lemma process_blocks_frame:
  "process_blocks s resp pn i bs = (s', outs) \<Longrightarrow>
     colleges_found s' = colleges_found s \<and> page_attempts s' = page_attempts s
     \<and> failed_pages s' = failed_pages s \<and> ledger s' = ledger s"
  by (induction bs arbitrary: s i s' outs) (auto simp: Let_def put_def split: prod.splits)

lemma process_blocks_links:
  "process_blocks s resp pn i bs = (s', outs) \<Longrightarrow> Req q \<in> set outs \<Longrightarrow>
     r_callback q = Cb_parse_college_page
     \<and> (\<exists>l. m_college_link (r_meta q) = Some l \<and> l \<noteq> [] \<and> l \<notin> completed_colleges (ledger s)
            \<and> r_url q = Follow (resp_url resp) l \<and> (\<exists>b \<in> set bs. b_link b = Some l))"
proof (induction bs arbitrary: s i s' outs)
  case Nil
  then show ?case by simp
next
  case (Cons b bs)
  obtain s2 outs2 where rec:
    "process_blocks ((put s (next_ref s) (extract_college_data b))\<lparr>next_ref := Suc (next_ref s)\<rparr>)
       resp pn (i + 1) bs = (s2, outs2)"
    by (cases "process_blocks ((put s (next_ref s) (extract_college_data b))\<lparr>next_ref := Suc (next_ref s)\<rparr>) resp pn (i + 1) bs") 
  have led: "ledger ((put s (next_ref s) (extract_college_data b))\<lparr>next_ref := Suc (next_ref s)\<rparr>) = ledger s"
    by (simp add: put_def)
  from Cons.prems rec show ?case
    using Cons.IH [OF rec] led
    by (auto simp: Let_def no_meta_def split: option.splits if_splits)
qed

lemma process_blocks_items:
  "process_blocks s resp pn i bs = (s', outs) \<Longrightarrow> Item r \<notin> set outs"
  by (induction bs arbitrary: s i s' outs) (auto simp: Let_def split: prod.splits option.splits if_splits)

lemma parse_yields:
  "y \<in> set (res_yielded (parse s resp)) \<Longrightarrow>
     \<exists>s0 pn bs s' outs. process_blocks s0 resp pn 1 bs = (s', outs) \<and> y \<in> set outs
        \<and> ledger s0 = ledger s \<and> set bs \<subseteq> set (doc_card_boxes (resp_doc resp))"
  apply (auto simp: parse_def Let_def return_of_def raising_def returning_def yielding_def
      handle_invalid_page_def retry_page_def
      split: option.splits if_splits sum.splits prod.splits)
   apply (rule exI, rule exI, rule exI, rule exI, rule exI, rule conjI, assumption)
   apply auto
  apply (rule exI, rule exI, rule exI, rule exI, rule exI, rule conjI, assumption)
  apply auto
  done

lemma tab_effect_frame:
  assumes "m_college_data (resp_meta resp) = Some r0"
  shows "requests_of (res_yielded (parse_tab_content s resp)) = []"
    and "next_ref (res_spider (parse_tab_content s resp)) = next_ref s"
    and "r \<noteq> r0 \<Longrightarrow> store (res_spider (parse_tab_content s resp)) r = store s r"
  using assms
  by (auto simp: parse_tab_content_def Let_def raising_def yielding_def put_def
      split: option.splits pyval.splits)

lemma tab_effect_no_title:
  "m_tab_title (resp_meta resp) = None \<Longrightarrow>
     res_spider (parse_tab_content s resp) = s \<and> res_yielded (parse_tab_content s resp) = []"
  by (auto simp: parse_tab_content_def raising_def split: option.splits)

lemma tab_effect_no_data:
  "m_college_data (resp_meta resp) = None \<Longrightarrow>
     res_spider (parse_tab_content s resp) = s \<and> res_yielded (parse_tab_content s resp) = []"
  by (auto simp: parse_tab_content_def raising_def split: option.splits)

lemma tab_effect_count:
  assumes "m_college_data (resp_meta resp) = Some r0"
    and "m_tab_title (resp_meta resp) = Some title"
    and "store s r0 ''tabs_pending'' = Some (PInt n)"
    and "store s r0 ''tabs'' = Some (PDict t)"
  shows "items_of (res_yielded (parse_tab_content s resp)) = (if n = 1 then [r0] else [])"
    and "store (res_spider (parse_tab_content s resp)) r0 ''tabs_pending'' =
           (if n = 1 then None else Some (PInt (n - 1)))"
    and "store (res_spider (parse_tab_content s resp)) r0 ''tabs'' =
           Some (PDict (t(tab_key_of title \<mapsto> tab_data_of title (resp_doc resp))))"
  using assms
  by (auto simp: parse_tab_content_def Let_def raising_def yielding_def put_def pop_key_def)

lemma tab_requests_carry:
  "tab_requests resp r0 tabs = (outs, e) \<Longrightarrow>
     items_of outs = [] \<and> (\<forall>q \<in> set (requests_of outs). carries Cb_parse_tab_content r0 q)
     \<and> length (requests_of outs) \<le> length tabs
     \<and> (e = None \<longrightarrow> length (requests_of outs) = length tabs)"
  by (induction tabs arbitrary: outs e)
     (auto simp: carries_def no_meta_def split: option.splits prod.splits)

lemma detail_effect_frame:
  assumes "m_college_data (resp_meta resp) = Some r0"
  shows "next_ref (res_spider (parse_college_page s resp)) = next_ref s"
    and "r \<noteq> r0 \<Longrightarrow> store (res_spider (parse_college_page s resp)) r = store s r"
    and "\<forall>q \<in> set (requests_of (res_yielded (parse_college_page s resp))).
            carries Cb_parse_tab_content r0 q"
  using assms
    by (auto simp: parse_college_page_def Let_def raising_def yielding_def put_def
      split: option.splits sum.splits prod.splits dest: tab_requests_carry)

lemma detail_effect_no_data:
  "m_college_data (resp_meta resp) = None \<Longrightarrow>
     res_spider (parse_college_page s resp) = s \<and> res_yielded (parse_college_page s resp) = []"
  by (auto simp: parse_college_page_def raising_def split: option.splits)

lemma detail_effect_count:
  assumes "m_college_data (resp_meta resp) = Some r0"
  shows "(res_yielded (parse_college_page s resp) = []
          \<and> store (res_spider (parse_college_page s resp)) r0 ''tabs_pending'' = store s r0 ''tabs_pending'')
       \<or> (\<exists>n. store (res_spider (parse_college_page s resp)) r0 ''tabs_pending'' = Some (PInt n)
             \<and> 0 \<le> n
             \<and> store (res_spider (parse_college_page s resp)) r0 ''tabs'' = Some (PDict Map.empty)
             \<and> int (length (requests_of (res_yielded (parse_college_page s resp)))) \<le> n
             \<and> items_of (res_yielded (parse_college_page s resp)) = (if n = 0 then [r0] else []))"
proof (cases "tabs_to_fetch (doc_nav_tabs (resp_doc resp))")
  case (Inl e)
  with assms show ?thesis
    by (simp add: parse_college_page_def Let_def raising_def put_def)
next
  case (Inr tabs)
  obtain outs e where tr: "tab_requests resp r0 tabs = (outs, e)"
    by (cases "tab_requests resp r0 tabs")
  from tab_requests_carry [OF tr] have
    i: "items_of outs = []" and l: "length (requests_of outs) \<le> length tabs"
    and ee: "e = None \<longrightarrow> length (requests_of outs) = length tabs" by auto
  have z: "tabs = [] \<Longrightarrow> e = None" using tr by simp
  show ?thesis
    using assms Inr tr i l ee z
    by (cases e) (auto simp: parse_college_page_def Let_def raising_def yielding_def put_def)
qed

lemma requests_of_append: "requests_of (xs @ ys) = requests_of xs @ requests_of ys"
  by (induction xs rule: requests_of.induct) auto

lemma items_of_append: "items_of (xs @ ys) = items_of xs @ items_of ys"
  by (induction xs rule: items_of.induct) auto

lemma extract_no_counter: "extract_college_data b ''tabs_pending'' = None"
  by (auto simp: extract_college_data_def extract_body_def Let_def split: sum.splits prod.splits)

lemma process_blocks_effect:
  "process_blocks s resp pn i bs = (s', outs) \<Longrightarrow>
     next_ref s \<le> next_ref s'
     \<and> (\<forall>r. r < next_ref s \<longrightarrow> store s' r = store s r)
     \<and> (\<forall>r. store s' r = store s r \<or> store s' r ''tabs_pending'' = None)
     \<and> items_of outs = []
     \<and> (\<forall>q \<in> set (requests_of outs). r_callback q = Cb_parse_college_page
           \<and> (\<exists>r. m_college_data (r_meta q) = Some r \<and> next_ref s \<le> r \<and> r < next_ref s'))
     \<and> (\<forall>r. length (filter (carries Cb_parse_college_page r) (requests_of outs)) \<le> 1)"
proof (induction bs arbitrary: s i s' outs)
  case Nil
  then show ?case by simp
next
  case (Cons b bs)
  define s1 where "s1 = (put s (next_ref s) (extract_college_data b))\<lparr>next_ref := Suc (next_ref s)\<rparr>"
  obtain s2 outs2 where rec: "process_blocks s1 resp pn (i + 1) bs = (s2, outs2)"
    by (cases "process_blocks s1 resp pn (i + 1) bs")
  note IH = Cons.IH [OF rec]
  have s1n: "next_ref s1 = Suc (next_ref s)" by (simp add: s1_def put_def)
  have s1s: "\<And>r. store s1 r = (if r = next_ref s then extract_college_data b else store s r)"
    by (simp add: s1_def put_def)
  define out where "out = (case b_link b of
                   None \<Rightarrow> []
                 | Some college_link \<Rightarrow>
                     if college_link \<noteq> [] \<and> college_link \<notin> completed_colleges (ledger s)
                     then [Req \<lparr>r_url = Follow (resp_url resp) college_link,
                             r_callback = Cb_parse_college_page,
                             r_errback = Some Eb_handle_error,
                             r_meta = no_meta\<lparr>m_college_data := Some (next_ref s),
                               m_page_number := Some pn,
                               m_block_number := Some i,
                               m_college_link := Some college_link,
                               m_dont_retry := Some False,
                               m_download_timeout := Some 180\<rparr>,
                             r_priority = 5\<rparr>]
                     else [])"
  from Cons.prems rec have eq: "s' = s2" "outs = out @ outs2"
    by (auto simp: Let_def s1_def out_def)
  have out_items: "items_of out = []"
    by (auto simp: out_def split: option.splits)
  have out_reqs: "\<forall>q \<in> set (requests_of out). r_callback q = Cb_parse_college_page
      \<and> m_college_data (r_meta q) = Some (next_ref s)"
    by (auto simp: out_def split: option.splits)
  have out_len: "length (requests_of out) \<le> 1"
    by (auto simp: out_def split: option.splits)
  have a: "next_ref s \<le> next_ref s'" using IH s1n eq by simp
  have b: "\<forall>r. r < next_ref s \<longrightarrow> store s' r = store s r"
    using IH s1n s1s eq by auto
  have c: "\<forall>r. store s' r = store s r \<or> store s' r ''tabs_pending'' = None"
  proof
    fix r
    show "store s' r = store s r \<or> store s' r ''tabs_pending'' = None"
    proof (cases "r = next_ref s")
      case True
      then have "store s' r = store s1 r" using IH s1n eq by simp
      then show ?thesis using True s1s extract_no_counter by simp
    next
      case False
      have "store s2 r = store s1 r \<or> store s2 r ''tabs_pending'' = None" using IH by auto
      with False s1s show ?thesis by (simp add: eq)
    qed
  qed
  have d: "items_of outs = []" using IH out_items eq by (simp add: items_of_append)
  have e: "\<forall>q \<in> set (requests_of outs). r_callback q = Cb_parse_college_page
           \<and> (\<exists>r. m_college_data (r_meta q) = Some r \<and> next_ref s \<le> r \<and> r < next_ref s')"
    using IH out_reqs s1n eq a by (auto simp: requests_of_append) 
  have f: "\<forall>r. length (filter (carries Cb_parse_college_page r) (requests_of outs)) \<le> 1"
  proof
    fix r
    show "length (filter (carries Cb_parse_college_page r) (requests_of outs)) \<le> 1"
    proof (cases "r = next_ref s")
      case True
      have "filter (carries Cb_parse_college_page r) (requests_of outs2) = []"
        using IH True s1n by (auto simp: filter_empty_conv carries_def)
      moreover have "length (filter (carries Cb_parse_college_page r) (requests_of out)) \<le> 1"
        using out_len by (meson le_trans length_filter_le)
      ultimately show ?thesis using eq by (simp add: requests_of_append)
    next
      case False
      have "filter (carries Cb_parse_college_page r) (requests_of out) = []"
        using out_reqs False by (auto simp: filter_empty_conv carries_def)
      then show ?thesis using IH eq by (simp add: requests_of_append)
    qed
  qed
  from a b c d e f show ?case by blast
qed

lemma parse_shape:
  "(res_yielded (parse s resp) = [] \<and> next_ref (res_spider (parse s resp)) = next_ref s
      \<and> store (res_spider (parse s resp)) = store s \<and> ledger (res_spider (parse s resp)) = ledger s)
   \<or> (\<exists>s0 pn bs s' outs. process_blocks s0 resp pn 1 bs = (s', outs)
         \<and> res_spider (parse s resp) = s' \<and> res_yielded (parse s resp) = outs
         \<and> next_ref s0 = next_ref s \<and> store s0 = store s \<and> ledger s0 = ledger s)"
proof (cases "m_page (resp_meta resp)")
  case None
  then show ?thesis by (simp add: parse_def raising_def)
next
  case (Some pn)
  define bs where "bs = filter b_col_md_12 (doc_card_boxes (resp_doc resp))"
  define s1 where "s1 = s\<lparr>colleges_found := colleges_found s + int (length bs)\<rparr>"
  define s2 where "s2 = (if int (length bs) < 10
                           then s1\<lparr>failed_pages := insert (Some pn) (failed_pages s1)\<rparr>
                           else s1)"
  show ?thesis
  proof (cases "is_valid_page resp \<and> \<not> (int (length bs) < 10 \<and> page_attempts s1 pn < 3)")
    case True
    obtain s' outs where pb: "process_blocks s2 resp pn 1 bs = (s', outs)"
      by (cases "process_blocks s2 resp pn 1 bs")
    have pa: "page_attempts s1 pn = page_attempts s pn" by (simp add: s1_def)
    have "parse s resp = yielding s' outs"
      using Some True pb pa
      by (auto simp: parse_def Let_def bs_def [symmetric] s1_def [symmetric] s2_def)
    moreover have "next_ref s2 = next_ref s" "store s2 = store s" "ledger s2 = ledger s"
      by (simp_all add: s2_def s1_def)
    ultimately show ?thesis using pb by (auto simp: yielding_def)
  next
    case False
    then have "res_yielded (parse s resp) = [] \<and> next_ref (res_spider (parse s resp)) = next_ref s
      \<and> store (res_spider (parse s resp)) = store s \<and> ledger (res_spider (parse s resp)) = ledger s"
      using Some
      by (auto simp: parse_def Let_def bs_def [symmetric] s1_def return_of_def raising_def
          returning_def handle_invalid_page_def retry_page_def split: if_splits)
    then show ?thesis by simp
  qed
qed

lemma parse_effect:
  "next_ref s \<le> next_ref (res_spider (parse s resp))
   \<and> (\<forall>r. r < next_ref s \<longrightarrow> store (res_spider (parse s resp)) r = store s r)
   \<and> (\<forall>r. store (res_spider (parse s resp)) r = store s r
          \<or> store (res_spider (parse s resp)) r ''tabs_pending'' = None)
   \<and> items_of (res_yielded (parse s resp)) = []
   \<and> (\<forall>q \<in> set (requests_of (res_yielded (parse s resp))). r_callback q = Cb_parse_college_page
         \<and> (\<exists>r. m_college_data (r_meta q) = Some r \<and> next_ref s \<le> r
               \<and> r < next_ref (res_spider (parse s resp))))
   \<and> (\<forall>r. length (filter (carries Cb_parse_college_page r)
                (requests_of (res_yielded (parse s resp)))) \<le> 1)"
  using parse_shape [of s resp]
proof (elim disjE exE conjE)
  assume "res_yielded (parse s resp) = []" "next_ref (res_spider (parse s resp)) = next_ref s"
    "store (res_spider (parse s resp)) = store s"
  then show ?thesis by simp
next
  fix s0 pn bs s' outs
  assume pb: "process_blocks s0 resp pn 1 bs = (s', outs)"
    and eqs: "res_spider (parse s resp) = s'" "res_yielded (parse s resp) = outs"
      "next_ref s0 = next_ref s" "store s0 = store s"
  from process_blocks_effect [OF pb] show ?thesis
    unfolding eqs by simp
qed

lemma cnt_nth:
  "i < length qs \<Longrightarrow>
     length (filter P qs) = length (filter P (take i qs @ drop (Suc i) qs)) + (if P (qs ! i) then 1 else 0)"
proof -
  assume "i < length qs"
  then have "qs = take i qs @ qs ! i # drop (Suc i) qs" by (rule id_take_nth_drop)
  then have "length (filter P qs) = length (filter P (take i qs @ qs ! i # drop (Suc i) qs))" by simp
  then show ?thesis by simp
qed

lemma deliver_fields:
  assumes "i < length (c_inflight c)"
  shows "c_spider (deliver c (i, oc)) = res_spider (dispatch (c_spider c) (c_inflight c ! i) oc)"
    and "c_inflight (deliver c (i, oc)) = take i (c_inflight c) @ drop (Suc i) (c_inflight c)
           @ requests_of (res_yielded (dispatch (c_spider c) (c_inflight c ! i) oc))"
    and "c_emitted (deliver c (i, oc)) = c_emitted c
           @ items_of (res_yielded (dispatch (c_spider c) (c_inflight c ! i) oc))"
  using assms by (simp_all add: deliver_def Let_def)

lemma deliver_idle: "\<not> i < length (c_inflight c) \<Longrightarrow> deliver c (i, oc) = c"
  by (simp add: deliver_def)

lemma in_flight_deliver:
  assumes "i < length (c_inflight c)"
  shows "in_flight (deliver c (i, oc)) cb r + (if carries cb r (c_inflight c ! i) then 1 else 0)
         = in_flight c cb r
           + length (filter (carries cb r)
               (requests_of (res_yielded (dispatch (c_spider c) (c_inflight c ! i) oc))))"
  using cnt_nth [OF assms, of "carries cb r"]
  by (simp add: in_flight_def deliver_fields [OF assms])

lemma times_emitted_deliver:
  assumes "i < length (c_inflight c)"
  shows "times_emitted (deliver c (i, oc)) r
         = times_emitted c r
           + count_list (items_of (res_yielded (dispatch (c_spider c) (c_inflight c ! i) oc))) r"
  by (simp add: times_emitted_def deliver_fields [OF assms])

lemma inflight_deliver_set:
  assumes "i < length (c_inflight c)"
  shows "set (c_inflight (deliver c (i, oc))) \<subseteq> set (c_inflight c)
           \<union> set (requests_of (res_yielded (dispatch (c_spider c) (c_inflight c ! i) oc)))"
  unfolding deliver_fields [OF assms] by (auto dest: in_set_takeD in_set_dropD)

lemma in_flight_pos: "0 < in_flight c cb r \<longleftrightarrow> (\<exists>q \<in> set (c_inflight c). carries cb r q)"
  by (auto simp: in_flight_def filter_empty_conv length_greater_0_conv simp del: length_greater_0_conv)

lemma ref_ok_shrink:
  "ref_ok d t e p tv \<Longrightarrow> d' \<le> d \<Longrightarrow> t' \<le> t \<Longrightarrow> ref_ok d' t' e p tv"
  unfolding ref_ok_def by (auto; force)

text \<open>A step that leaves the spider alone and yields nothing.\<close>

lemma sound_quiet:
  assumes s: "sound c" and i: "i < length (c_inflight c)"
    and q: "res_spider (dispatch (c_spider c) (c_inflight c ! i) oc) = c_spider c"
      "res_yielded (dispatch (c_spider c) (c_inflight c ! i) oc) = []"
  shows "sound (deliver c (i, oc))"
proof -
  let ?c = "deliver c (i, oc)"
  have sp: "c_spider ?c = c_spider c" and em: "c_emitted ?c = c_emitted c"
    using deliver_fields [OF i, of oc] q by simp_all
  have le: "\<And>cb r. in_flight ?c cb r \<le> in_flight c cb r"
    using in_flight_deliver [OF i, of oc] q by (simp add: le_iff_add) (metis add.commute)
  have te: "\<And>r. times_emitted ?c r = times_emitted c r"
    by (simp add: times_emitted_def em)
  have sub: "set (c_inflight ?c) \<subseteq> set (c_inflight c)"
    using inflight_deliver_set [OF i, of oc] q by simp
  show ?thesis
    unfolding sound_def sp em te
    using s sub le unfolding sound_def
    by (auto intro: ref_ok_shrink)
qed

lemma dispatch_failure:
  "res_spider (dispatch s q Failure) = s \<and> res_yielded (dispatch s q Failure) = []"
  by (auto simp: dispatch_def yielding_def handle_error_def set_append_def raising_def
      split: option.splits errback.splits)

lemma count_list_zero: "x \<notin> set xs \<Longrightarrow> count_list xs x = 0"
  by (induction xs) auto

lemma soundD_fresh:
  assumes "sound c" and "next_ref (c_spider c) \<le> r"
  shows "in_flight c cb r = 0" and "times_emitted c r = 0"
proof -
  have "\<not> 0 < in_flight c cb r"
    using assms unfolding in_flight_pos sound_def carries_def by fastforce
  then show "in_flight c cb r = 0" by simp
  have "r \<notin> set (c_emitted c)" using assms unfolding sound_def by fastforce
  then show "times_emitted c r = 0" by (simp add: times_emitted_def count_list_zero)
qed

lemma soundD_ok:
  "sound c \<Longrightarrow> ref_ok (in_flight c Cb_parse_college_page r) (in_flight c Cb_parse_tab_content r)
                 (times_emitted c r) (store (c_spider c) r ''tabs_pending'')
                 (store (c_spider c) r ''tabs'')"
  by (simp add: sound_def)

lemma filter_none: "(\<forall>x \<in> set xs. \<not> P x) \<Longrightarrow> length (filter P xs) = 0"
  by (simp add: filter_empty_conv)

lemma sound_listing:
  assumes s: "sound c" and i: "i < length (c_inflight c)"
    and cb: "r_callback (c_inflight c ! i) = Cb_parse"
  shows "sound (deliver c (i, Response doc))"
proof -
  let ?c = "deliver c (i, Response doc)"
  let ?q = "c_inflight c ! i"
  let ?s = "c_spider c"
  define resp where "resp = \<lparr>resp_url = r_url ?q, resp_meta = r_meta ?q, resp_doc = doc\<rparr>"
  have d: "dispatch ?s ?q (Response doc) = parse ?s resp"
    by (simp add: dispatch_def cb resp_def)
  note eff = parse_effect [of ?s resp]
  let ?s' = "res_spider (parse ?s resp)"
  let ?new = "requests_of (res_yielded (parse ?s resp))"
  have sp: "c_spider ?c = ?s'" using deliver_fields(1) [OF i, of "Response doc"] d by simp
  have nr: "next_ref ?s \<le> next_ref ?s'" using eff by simp
  have old: "\<And>r. r < next_ref ?s \<Longrightarrow> store ?s' r = store ?s r" using eff by simp
  have fresh: "\<And>r. store ?s' r = store ?s r \<or> store ?s' r ''tabs_pending'' = None"
    using eff by simp
  have items: "items_of (res_yielded (parse ?s resp)) = []" using eff by simp
  have new: "\<And>q. q \<in> set ?new \<Longrightarrow> r_callback q = Cb_parse_college_page
         \<and> (\<exists>r. m_college_data (r_meta q) = Some r \<and> next_ref ?s \<le> r \<and> r < next_ref ?s')"
    using eff by blast
  have newD: "\<And>r. length (filter (carries Cb_parse_college_page r) ?new) \<le> 1" using eff by blast
  have newT: "\<And>r. length (filter (carries Cb_parse_tab_content r) ?new) = 0"
    by (rule filter_none) (auto simp: carries_def dest: new)
  have newD_old: "\<And>r. r < next_ref ?s \<Longrightarrow> length (filter (carries Cb_parse_college_page r) ?new) = 0"
    by (rule filter_none) (auto simp: carries_def dest!: new)
  have nc: "\<And>cb' r. \<not> carries cb' r ?q \<or> cb' = Cb_parse" by (auto simp: carries_def cb)
  have D: "\<And>r. in_flight ?c Cb_parse_college_page r
             = in_flight c Cb_parse_college_page r + length (filter (carries Cb_parse_college_page r) ?new)"
    using in_flight_deliver [OF i, of "Response doc" Cb_parse_college_page] d 
    by (simp add: carries_def cb)
  have T: "\<And>r. in_flight ?c Cb_parse_tab_content r = in_flight c Cb_parse_tab_content r"
    using in_flight_deliver [OF i, of "Response doc" Cb_parse_tab_content] d newT
    by (simp add: carries_def cb)
  have E: "\<And>r. times_emitted ?c r = times_emitted c r"
    using times_emitted_deliver [OF i, of "Response doc"] d items by simp
  have em: "c_emitted ?c = c_emitted c"
    using deliver_fields(3) [OF i, of "Response doc"] d items by simp
  have a1: "\<forall>q \<in> set (c_inflight ?c). \<forall>r. m_college_data (r_meta q) = Some r \<longrightarrow> r < next_ref ?s'"
  proof (intro ballI allI impI)
    fix q r assume q: "q \<in> set (c_inflight ?c)" and r: "m_college_data (r_meta q) = Some r"
    from q inflight_deliver_set [OF i, of "Response doc"] d
    have "q \<in> set (c_inflight c) \<or> q \<in> set ?new" by auto
    then show "r < next_ref ?s'"
    proof
      assume "q \<in> set (c_inflight c)"
      then have "r < next_ref ?s" using s r unfolding sound_def by blast
      then show ?thesis using nr by simp
    next
      assume "q \<in> set ?new"
      then show ?thesis using new r by fastforce
    qed
  qed
  have a2: "\<forall>r \<in> set (c_emitted ?c). r < next_ref ?s'"
    using s nr unfolding em sound_def by fastforce
  have ok: "\<And>r. ref_ok (in_flight ?c Cb_parse_college_page r) (in_flight ?c Cb_parse_tab_content r)
                 (times_emitted ?c r) (store ?s' r ''tabs_pending'') (store ?s' r ''tabs'')"
  proof -
    fix r
    show "ref_ok (in_flight ?c Cb_parse_college_page r) (in_flight ?c Cb_parse_tab_content r)
                 (times_emitted ?c r) (store ?s' r ''tabs_pending'') (store ?s' r ''tabs'')"
    proof (cases "r < next_ref ?s")
      case True
      then have "store ?s' r = store ?s r" by (rule old)
      then show ?thesis
        using soundD_ok [OF s, of r] newD_old [OF True] by (simp add: D T E)
    next
      case False
      then have z: "in_flight c Cb_parse_college_page r = 0" "in_flight c Cb_parse_tab_content r = 0"
        "times_emitted c r = 0"
        using soundD_fresh [OF s, of r] by simp_all
      have "store ?s' r = store ?s r \<or> store ?s' r ''tabs_pending'' = None" by (rule fresh)
      then have "\<forall>n. store ?s' r ''tabs_pending'' = Some (PInt n) \<longrightarrow> 0 \<le> n"
        using soundD_ok [OF s, of r] by (auto simp: ref_ok_def)
      then show ?thesis
        using newD [of r] by (simp add: D T E z ref_ok_def)
    qed
  qed
  show ?thesis unfolding sound_def sp using a1 a2 ok by blast
qed

lemma count_list_single: "count_list [x] r = (if x = r then 1 else 0)"
  by simp

lemma filter_all: "(\<forall>x \<in> set xs. P x) \<Longrightarrow> length (filter P xs) = length xs"
  by (induction xs) auto

lemma sound_detail:
  assumes s: "sound c" and i: "i < length (c_inflight c)"
    and cb: "r_callback (c_inflight c ! i) = Cb_parse_college_page"
  shows "sound (deliver c (i, Response doc))"
proof (cases "m_college_data (r_meta (c_inflight c ! i))")
  case None
  define resp where "resp = \<lparr>resp_url = r_url (c_inflight c ! i), resp_meta = r_meta (c_inflight c ! i), resp_doc = doc\<rparr>"
  have d: "dispatch (c_spider c) (c_inflight c ! i) (Response doc) = parse_college_page (c_spider c) resp"
    by (simp add: dispatch_def cb resp_def)
  have "m_college_data (resp_meta resp) = None" using None by (simp add: resp_def)
  from detail_effect_no_data [OF this, of "c_spider c"] show ?thesis
    by (intro sound_quiet [OF s i]) (simp_all add: d)
next
  case (Some r0)
  let ?c = "deliver c (i, Response doc)"
  let ?q = "c_inflight c ! i"
  let ?s = "c_spider c"
  define resp where "resp = \<lparr>resp_url = r_url ?q, resp_meta = r_meta ?q, resp_doc = doc\<rparr>"
  have d: "dispatch ?s ?q (Response doc) = parse_college_page ?s resp"
    by (simp add: dispatch_def cb resp_def)
  have md: "m_college_data (resp_meta resp) = Some r0" using Some by (simp add: resp_def)
  let ?res = "parse_college_page ?s resp"
  let ?s' = "res_spider ?res"
  let ?new = "requests_of (res_yielded ?res)"
  let ?items = "items_of (res_yielded ?res)"
  note fr = detail_effect_frame [OF md, where s = "?s"]
  have sp: "c_spider ?c = ?s'" using deliver_fields(1) [OF i, of "Response doc"] d by simp
  have nr: "next_ref ?s' = next_ref ?s" by (rule fr(1))
  have qin: "?q \<in> set (c_inflight c)" using i by simp
  have r0lt: "r0 < next_ref ?s" using s qin Some unfolding sound_def by blast
  have cq: "carries Cb_parse_college_page r0 ?q" by (simp add: carries_def cb Some)
  have newc: "\<forall>q \<in> set ?new. carries Cb_parse_tab_content r0 q" by (rule fr(3))
  have newD: "\<And>r. length (filter (carries Cb_parse_college_page r) ?new) = 0"
    by (rule filter_none) (use newc in \<open>auto simp: carries_def\<close>)
  have newT0: "length (filter (carries Cb_parse_tab_content r0) ?new) = length ?new"
    by (rule filter_all) (rule newc)
  have newT: "\<And>r. r \<noteq> r0 \<Longrightarrow> length (filter (carries Cb_parse_tab_content r) ?new) = 0"
    by (rule filter_none) (use newc in \<open>auto simp: carries_def\<close>)
  have D: "in_flight ?c Cb_parse_college_page r + (if r = r0 then 1 else 0)
             = in_flight c Cb_parse_college_page r" for r
    using in_flight_deliver [OF i, of "Response doc" Cb_parse_college_page r] d newD [of r]
    by (auto simp: carries_def cb Some)
  have T: "in_flight ?c Cb_parse_tab_content r
             = in_flight c Cb_parse_tab_content r + (if r = r0 then length ?new else 0)" for r
    using in_flight_deliver [OF i, of "Response doc" Cb_parse_tab_content r] d newT [of r] newT0
    by (auto simp: carries_def cb)
  have E: "times_emitted ?c r = times_emitted c r + count_list ?items r" for r
    using times_emitted_deliver [OF i, of "Response doc" r] d by simp
  have ok0: "ref_ok (in_flight c Cb_parse_college_page r0) (in_flight c Cb_parse_tab_content r0)
                 (times_emitted c r0) (store ?s r0 ''tabs_pending'') (store ?s r0 ''tabs'')"
    by (rule soundD_ok [OF s])
  have d1: "in_flight c Cb_parse_college_page r0 = 1"
    using D [of r0] ok0 by (simp add: ref_ok_def)
  have t0: "in_flight c Cb_parse_tab_content r0 = 0" and e0: "times_emitted c r0 = 0"
    using ok0 d1 by (simp_all add: ref_ok_def)
  have items_sub: "set ?items \<subseteq> {r0}"
    using detail_effect_count [OF md, where s = "?s"] by (auto split: if_splits)
  have a1: "\<forall>q \<in> set (c_inflight ?c). \<forall>r. m_college_data (r_meta q) = Some r \<longrightarrow> r < next_ref ?s'"
  proof (intro ballI allI impI)
    fix q r assume q: "q \<in> set (c_inflight ?c)" and r: "m_college_data (r_meta q) = Some r"
    from q inflight_deliver_set [OF i, of "Response doc"] d
    have "q \<in> set (c_inflight c) \<or> q \<in> set ?new" by auto
    then show "r < next_ref ?s'"
    proof
      assume "q \<in> set (c_inflight c)"
      then show ?thesis using s r nr unfolding sound_def by fastforce
    next
      assume "q \<in> set ?new"
      then have "carries Cb_parse_tab_content r0 q" using newc by blast
      then show ?thesis using r r0lt nr by (simp add: carries_def)
    qed
  qed
  have a2: "\<forall>r \<in> set (c_emitted ?c). r < next_ref ?s'"
  proof
    fix r assume "r \<in> set (c_emitted ?c)"
    then have "r \<in> set (c_emitted c) \<or> r \<in> set ?items"
      using deliver_fields(3) [OF i, of "Response doc"] d by auto
    then show "r < next_ref ?s'"
      using s items_sub r0lt nr unfolding sound_def by fastforce
  qed
  have ok: "\<And>r. ref_ok (in_flight ?c Cb_parse_college_page r) (in_flight ?c Cb_parse_tab_content r)
                 (times_emitted ?c r) (store ?s' r ''tabs_pending'') (store ?s' r ''tabs'')"
  proof -
    fix r
    show "ref_ok (in_flight ?c Cb_parse_college_page r) (in_flight ?c Cb_parse_tab_content r)
                 (times_emitted ?c r) (store ?s' r ''tabs_pending'') (store ?s' r ''tabs'')"
    proof (cases "r = r0")
      case False
      then have st: "store ?s' r = store ?s r" by (rule fr(2))
      have "count_list ?items r = 0" using items_sub False by (intro count_list_zero) auto
      then show ?thesis
        using soundD_ok [OF s, of r] D [of r] False by (simp add: T E st)
    next
      case True
      have dd: "in_flight ?c Cb_parse_college_page r0 = 0" using D [of r0] d1 by simp
      from detail_effect_count [OF md, where s = "?s"] show ?thesis
      proof (elim disjE conjE exE)
        assume y: "res_yielded ?res = []"
          and p: "store ?s' r0 ''tabs_pending'' = store ?s r0 ''tabs_pending''"
        show ?thesis
          using ok0 unfolding True by (simp add: dd T E y p t0 e0 ref_ok_def)
      next
        fix n
        assume p: "store ?s' r0 ''tabs_pending'' = Some (PInt n)" and n0: "0 \<le> n"
          and tv: "store ?s' r0 ''tabs'' = Some (PDict Map.empty)"
          and len: "int (length ?new) \<le> n"
          and it: "?items = (if n = 0 then [r0] else [])"
        show ?thesis
          unfolding True using n0 len by (auto simp: dd T E p tv it t0 e0 ref_ok_def)
      qed
    qed
  qed
  show ?thesis unfolding sound_def sp using a1 a2 ok by blast
qed

lemma sound_tab:
  assumes s: "sound c" and i: "i < length (c_inflight c)"
    and cb: "r_callback (c_inflight c ! i) = Cb_parse_tab_content"
  shows "sound (deliver c (i, Response doc))"
proof -
  let ?c = "deliver c (i, Response doc)"
  let ?q = "c_inflight c ! i"
  let ?s = "c_spider c"
  define resp where "resp = \<lparr>resp_url = r_url ?q, resp_meta = r_meta ?q, resp_doc = doc\<rparr>"
  have d: "dispatch ?s ?q (Response doc) = parse_tab_content ?s resp"
    by (simp add: dispatch_def cb resp_def)
  let ?res = "parse_tab_content ?s resp"
  show ?thesis
  proof (cases "m_college_data (r_meta ?q) = None \<or> m_tab_title (r_meta ?q) = None")
    case True
    then have "res_spider ?res = ?s \<and> res_yielded ?res = []"
      using tab_effect_no_data [of resp ?s] tab_effect_no_title [of resp ?s]
      by (auto simp: resp_def)
    then show ?thesis by (intro sound_quiet [OF s i]) (simp_all add: d)
  next
    case False
    then obtain r0 title where md: "m_college_data (resp_meta resp) = Some r0"
      and mt: "m_tab_title (resp_meta resp) = Some title"
      by (auto simp: resp_def)
    let ?s' = "res_spider ?res"
    let ?items = "items_of (res_yielded ?res)"
    note fr = tab_effect_frame [OF md, where s = "?s"]
    have sp: "c_spider ?c = ?s'" using deliver_fields(1) [OF i, of "Response doc"] d by simp
    have nr: "next_ref ?s' = next_ref ?s" by (rule fr(2))
    have qin: "?q \<in> set (c_inflight c)" using i by simp
    have mdq: "m_college_data (r_meta ?q) = Some r0" using md by (simp add: resp_def)
    have r0lt: "r0 < next_ref ?s" using s qin mdq unfolding sound_def by blast
    have new: "requests_of (res_yielded ?res) = []" by (rule fr(1))
    have D: "in_flight ?c Cb_parse_college_page r = in_flight c Cb_parse_college_page r" for r
      using in_flight_deliver [OF i, of "Response doc" Cb_parse_college_page r] d new
      by (auto simp: carries_def cb)
    have T: "in_flight ?c Cb_parse_tab_content r + (if r = r0 then 1 else 0)
             = in_flight c Cb_parse_tab_content r" for r
      using in_flight_deliver [OF i, of "Response doc" Cb_parse_tab_content r] d new
      by (auto simp: carries_def cb mdq)
    have E: "times_emitted ?c r = times_emitted c r + count_list ?items r" for r
      using times_emitted_deliver [OF i, of "Response doc" r] d by simp
    have ok0: "ref_ok (in_flight c Cb_parse_college_page r0) (in_flight c Cb_parse_tab_content r0)
                 (times_emitted c r0) (store ?s r0 ''tabs_pending'') (store ?s r0 ''tabs'')"
      by (rule soundD_ok [OF s])
    have tpos: "0 < in_flight c Cb_parse_tab_content r0" using T [of r0] by simp
    then obtain n t where p: "store ?s r0 ''tabs_pending'' = Some (PInt n)"
      and le: "int (in_flight c Cb_parse_tab_content r0) \<le> n"
      and tv: "store ?s r0 ''tabs'' = Some (PDict t)"
      and e0: "times_emitted c r0 = 0"
      using ok0 by (auto simp: ref_ok_def)
    have d0: "in_flight c Cb_parse_college_page r0 = 0"
      using ok0 tpos by (auto simp: ref_ok_def)
    note cnt = tab_effect_count [OF md mt p tv]
    have items_sub: "set ?items \<subseteq> {r0}" using cnt(1) by (auto split: if_splits)
    have inf: "c_inflight ?c = take i (c_inflight c) @ drop (Suc i) (c_inflight c)"
      using deliver_fields(2) [OF i, of "Response doc"] d new by simp
    have a1: "\<forall>q \<in> set (c_inflight ?c). \<forall>r. m_college_data (r_meta q) = Some r \<longrightarrow> r < next_ref ?s'"
      using s nr unfolding inf sound_def by (auto dest: in_set_takeD in_set_dropD)
    have a2: "\<forall>r \<in> set (c_emitted ?c). r < next_ref ?s'"
    proof
      fix r assume "r \<in> set (c_emitted ?c)"
      then have "r \<in> set (c_emitted c) \<or> r \<in> set ?items"
        using deliver_fields(3) [OF i, of "Response doc"] d by auto
      then show "r < next_ref ?s'"
        using s items_sub r0lt nr unfolding sound_def by fastforce
    qed
    have ok: "\<And>r. ref_ok (in_flight ?c Cb_parse_college_page r) (in_flight ?c Cb_parse_tab_content r)
                 (times_emitted ?c r) (store ?s' r ''tabs_pending'') (store ?s' r ''tabs'')"
    proof -
      fix r
      show "ref_ok (in_flight ?c Cb_parse_college_page r) (in_flight ?c Cb_parse_tab_content r)
                 (times_emitted ?c r) (store ?s' r ''tabs_pending'') (store ?s' r ''tabs'')"
      proof (cases "r = r0")
        case False
        then have st: "store ?s' r = store ?s r" by (rule fr(3))
        have "count_list ?items r = 0" using items_sub False by (intro count_list_zero) auto
        then show ?thesis
          using soundD_ok [OF s, of r] T [of r] False by (simp add: D E st)
      next
        case True
        have tt: "in_flight ?c Cb_parse_tab_content r0 + 1 = in_flight c Cb_parse_tab_content r0"
          using T [of r0] by simp
        show ?thesis
          unfolding True using le tt
          by (auto simp: D E d0 e0 cnt ref_ok_def)
      qed
    qed
    show ?thesis unfolding sound_def sp using a1 a2 ok by blast
  qed
qed

lemma sound_deliver: "sound c \<Longrightarrow> sound (deliver c ev)"
proof -
  assume s: "sound c"
  obtain i oc where ev: "ev = (i, oc)" by (cases ev)
  show ?thesis
  proof (cases "i < length (c_inflight c)")
    case False
    then show ?thesis using s by (simp add: ev deliver_idle)
  next
    case True
    show ?thesis
    proof (cases oc)
      case Failure
      then show ?thesis
        unfolding ev using dispatch_failure [of "c_spider c" "c_inflight c ! i"]
        by (intro sound_quiet [OF s True]) simp_all
    next
      case (Response doc)
      then show ?thesis
        unfolding ev
        by (cases "r_callback (c_inflight c ! i)")
           (simp_all add: sound_listing [OF s True] sound_detail [OF s True] sound_tab [OF s True])
    qed
  qed
qed

lemma sound_run: "sound c \<Longrightarrow> sound (run c evs)"
  unfolding run_def by (induction evs arbitrary: c) (simp_all add: sound_deliver)

lemma start_requests_no_data: "q \<in> set start_requests \<Longrightarrow> m_college_data (r_meta q) = None"
  by (auto simp: start_requests_def no_meta_def)

lemma sound_start: "sound (start file)"
proof -
  have z: "\<And>cb r. in_flight (start file) cb r = 0"
    unfolding in_flight_def start_def
    by (simp add: filter_empty_conv carries_def start_requests_no_data)
  show ?thesis
    unfolding sound_def z
    by (auto simp: start_def times_emitted_def init_def ref_ok_def dest: start_requests_no_data)
qed

section \<open>The sample inputs evaluated\<close>

lemma sample_block_sel:
  "b_link (sample_block l) = Some l" "b_col_md_12 (sample_block l) = True"
  by (simp_all add: sample_block_def)

lemma listing_sel:
  "m_page (resp_meta (listing_response page doc)) = Some page"
  "resp_doc (listing_response page doc) = doc"
  "filter b_col_md_12 (doc_card_boxes (listing_doc links)) = map sample_block links"
  "is_valid_page (listing_response page (listing_doc links)) = (links \<noteq> [])"
  by (simp_all add: listing_response_def listing_doc_def no_doc_def no_meta_def is_valid_page_def
      sample_block_sel)

lemma len4: "length four_links = 4"
  by (simp add: four_links_def)

lemma tab_keys:
  "strip '' Courses '' = ''Courses''" "strip ''Admission'' = ''Admission''"
  "strip ''Cut Off'' = ''Cut Off''" "strip ''CutOff'' = ''CutOff''" "strip ''Fees'' = ''Fees''"
  "tab_key_of ''Courses'' = ''coursesTab''" "tab_key_of ''Admission'' = ''admissionTab''"
  "tab_key_of ''Cut Off'' = ''cutoffTab''" "tab_key_of ''CutOff'' = ''cutoffTab''"
  "tab_key_of ''Fees'' = ''feesTab''"
  by (simp_all add: strip_def is_space_def tab_key_of_def lower_def lower_char_def remove_char_def
      Let_def char_of_def bit_Suc_0_iff)

lemma detail_sel:
  "m_college_data (resp_meta (detail_response r doc)) = Some r"
  "resp_url (detail_response r doc) = Follow (Listing 1) ''/college''"
  "resp_doc (detail_response r doc) = doc"
  "doc_nav_tabs (detail_doc tabs) = map (\<lambda>t. \<lparr>nt_text = Some (fst t), nt_href = Some (snd t)\<rparr>) tabs"
  by (simp_all add: detail_response_def detail_doc_def no_doc_def no_meta_def)

lemma fetch_three:
  "tabs_to_fetch (doc_nav_tabs (resp_doc (detail_response 0 (detail_doc three_tabs)))) =
     Inr [\<lparr>nt_text = Some '' Courses '', nt_href = Some ''/courses''\<rparr>,
          \<lparr>nt_text = Some ''Admission'', nt_href = Some ''/admission''\<rparr>,
          \<lparr>nt_text = Some ''Cut Off'', nt_href = Some ''/cutoff''\<rparr>]"
  by (simp add: detail_sel three_tabs_def tab_keys excluded_tabs_def)

lemma fetch_clashing:
  "tabs_to_fetch (doc_nav_tabs (resp_doc (detail_response 0 (detail_doc clashing_tabs)))) =
     Inr [\<lparr>nt_text = Some ''Cut Off'', nt_href = Some ''/cut-off''\<rparr>,
          \<lparr>nt_text = Some ''CutOff'', nt_href = Some ''/cutoff''\<rparr>,
          \<lparr>nt_text = Some ''Fees'', nt_href = Some ''/fees''\<rparr>]"
  by (simp add: detail_sel clashing_tabs_def tab_keys excluded_tabs_def)

lemma sample_tab_request_sel:
  "r_callback (sample_tab_request r t h) = Cb_parse_tab_content"
  "m_college_data (r_meta (sample_tab_request r t h)) = Some r"
  "m_tab_title (r_meta (sample_tab_request r t h)) = Some t"
  "r_errback (sample_tab_request r t h) = None"
  by (simp_all add: sample_tab_request_def no_meta_def)

section \<open>The page validator\<close>

text \<open>
  C5. \<^verbatim>\<open>is_valid_page\<close> rejects a listing document whenever no element matches the
  item-block marker \<^verbatim>\<open>div.collegeCardBox\<close>, or none matches the container marker
  \<^verbatim>\<open>div.container\<close>, or the body has at most 1000 bytes; so a body that is too short
  is rejected also when both markers are there.
\<close>

theorem is_valid_page_rejects:
  "doc_card_boxes (resp_doc resp) = [] \<or> doc_containers (resp_doc resp) = 0
     \<or> length (doc_body (resp_doc resp)) \<le> 1000
   \<Longrightarrow> \<not> is_valid_page resp"
  by (auto simp: is_valid_page_def)

theorem is_valid_page_rejects_witness:
  "doc_card_boxes (listing_doc [''/a'']\<lparr>doc_body := replicate 999 (CHR ''x'')\<rparr>) \<noteq> []
   \<and> 0 < doc_containers (listing_doc [''/a'']\<lparr>doc_body := replicate 999 (CHR ''x'')\<rparr>)
   \<and> length (doc_body (listing_doc [''/a'']\<lparr>doc_body := replicate 999 (CHR ''x'')\<rparr>)) = 999
   \<and> \<not> is_valid_page
         (listing_response 1 (listing_doc [''/a'']\<lparr>doc_body := replicate 999 (CHR ''x'')\<rparr>))
   \<and> is_valid_page (listing_response 1 (listing_doc [''/a'']))"
  using is_valid_page_rejects
    [of "listing_response 1 (listing_doc [''/a'']\<lparr>doc_body := replicate 999 (CHR ''x'')\<rparr>)"]
  by (simp add: listing_doc_def listing_response_def no_doc_def is_valid_page_def)

section \<open>The extraction of a listing block\<close>

text \<open>
  C10. \<^verbatim>\<open>extract_college_data\<close> always returns a dict with the key \<^verbatim>\<open>title\<close>: when
  the body of its \<^verbatim>\<open>try\<close> raises, the result is the error record with the title
  \<^verbatim>\<open>Error in extraction\<close> and the text of the exception, otherwise the dict the body
  built. No exception reaches the caller: the result is a dict in both cases.
\<close>

theorem extract_college_data_total:
  "(\<exists>t. extract_college_data college ''title'' = Some (PStr t))
   \<and> (extract_body college = Inl e \<longrightarrow>
        extract_college_data college =
          Map.empty(''title'' \<mapsto> PStr ''Error in extraction'', ''error'' \<mapsto> PStr (str_error e)))
   \<and> (extract_body college = Inr d \<longrightarrow> extract_college_data college = d)"
  by (auto simp: extract_college_data_def extract_body_def Let_def split: sum.splits prod.splits)

lemma extract_body_three_places:
  "extract_body ((sample_block ''/a'')\<lparr>b_location := Some ''A, B, C''\<rparr>) = Inl ValueError"
  by (simp add: extract_body_def sample_block_def city_state_def split_def)

theorem extract_college_data_total_witness:
  "extract_body ((sample_block ''/a'')\<lparr>b_location := Some ''A, B, C''\<rparr>) = Inl ValueError
   \<and> extract_college_data ((sample_block ''/a'')\<lparr>b_location := Some ''A, B, C''\<rparr>) =
       Map.empty(''title'' \<mapsto> PStr ''Error in extraction'',
                 ''error'' \<mapsto> PStr ''too many values to unpack (expected 2)'')"
  using extract_college_data_total
    [of "(sample_block ''/a'')\<lparr>b_location := Some ''A, B, C''\<rparr>" ValueError]
    extract_body_three_places
  by simp

section \<open>The error handler\<close>

text \<open>
  C9 (the code does not do what the claim says). For every spider state and every failed
  request, \<^verbatim>\<open>handle_error\<close> ends with \<^verbatim>\<open>AttributeError\<close> at its second statement:
  it records nothing and yields no retry.
\<close>

theorem handle_error_raises:
  "handle_error s req = raising s [] AttributeError"
  by (simp add: handle_error_def set_append_def)

section \<open>The detail page without tabs\<close>

text \<open>
  C8 (the code does not do what the claim says). When the detail page leaves no tab to
  fetch, \<^verbatim>\<open>parse_college_page\<close> yields the college's dict at once, without raising and
  with an empty \<^verbatim>\<open>tabs\<close> dict; but the dict it yields still has the key
  \<^verbatim>\<open>tabs_pending\<close>, with the value 0. The other place that yields the dict, lines
  307-309, removes the key first.
\<close>

theorem parse_college_page_zero_tabs:
  "m_college_data (resp_meta resp) = Some r \<Longrightarrow>
   tabs_to_fetch (doc_nav_tabs (resp_doc resp)) = Inr [] \<Longrightarrow>
     res_yielded (parse_college_page s resp) = [Item r]
     \<and> res_raised (parse_college_page s resp) = None
     \<and> store (res_spider (parse_college_page s resp)) r ''tabs'' = Some (PDict Map.empty)
     \<and> store (res_spider (parse_college_page s resp)) r ''tabs_pending'' = Some (PInt 0)"
  by (simp add: parse_college_page_def Let_def yielding_def put_def)

theorem parse_college_page_zero_tabs_witness:
  "tabs_to_fetch (doc_nav_tabs (detail_doc [(''Gallery'', ''/gallery'')])) = Inr []
   \<and> res_yielded (parse_college_page (init None)
        (detail_response 0 (detail_doc [(''Gallery'', ''/gallery'')]))) = [Item 0]
   \<and> store (res_spider (parse_college_page (init None)
        (detail_response 0 (detail_doc [(''Gallery'', ''/gallery'')])))) 0 ''tabs_pending''
      = Some (PInt 0)"
  using parse_college_page_zero_tabs
    [of "detail_response 0 (detail_doc [(''Gallery'', ''/gallery'')])" 0 "init None"]
  by (simp add: detail_response_def detail_doc_def no_doc_def no_meta_def strip_def is_space_def
      excluded_tabs_def)

section \<open>The first listing request of a run\<close>

lemma start_requests_head:
  "start_requests =
     \<lparr>r_url = Listing 1, r_callback = Cb_parse, r_errback = Some Eb_handle_error,
       r_meta = no_meta\<lparr>m_page := Some 1, m_dont_retry := Some False\<rparr>, r_priority = 0\<rparr>
     # tl start_requests"
    "length (tl start_requests) = 80"
proof -
  have u: "[1..81::int] = 1 # [2..81]" by (subst upto_rec1) simp_all
  show "start_requests =
     \<lparr>r_url = Listing 1, r_callback = Cb_parse, r_errback = Some Eb_handle_error,
       r_meta = no_meta\<lparr>m_page := Some 1, m_dont_retry := Some False\<rparr>, r_priority = 0\<rparr>
     # tl start_requests"
    unfolding start_requests_def u by simp
  show "length (tl start_requests) = 80"
    by (simp add: start_requests_def)
qed

lemma tl_start_requests_pages:
  "map (\<lambda>q. m_page (r_meta q)) (tl start_requests) = map Some [2..81]"
proof -
  have u: "[1..81::int] = 1 # [2..81]" by (subst upto_rec1) simp_all
  show ?thesis unfolding start_requests_def u by (simp add: comp_def)
qed

lemma deliver_first:
  "c_spider (deliver (start file) (0, oc)) = res_spider (dispatch (init file) (hd start_requests) oc)"
  "c_inflight (deliver (start file) (0, oc)) =
     tl start_requests @ requests_of (res_yielded (dispatch (init file) (hd start_requests) oc))"
  "c_emitted (deliver (start file) (0, oc)) = items_of (res_yielded (dispatch (init file) (hd start_requests) oc))"
  "c_logged (deliver (start file) (0, oc)) =
     (case res_raised (dispatch (init file) (hd start_requests) oc) of None \<Rightarrow> [] | Some e \<Rightarrow> [e])"
proof -
  have ne: "start_requests \<noteq> []" using start_requests_head(1) by (metis list.distinct(1))
  then have l: "0 < length start_requests" by simp
  have n: "start_requests ! 0 = hd start_requests" using ne by (simp add: hd_conv_nth)
  have d: "drop (Suc 0) start_requests = tl start_requests" by (simp add: drop_Suc)
  show "c_spider (deliver (start file) (0, oc)) = res_spider (dispatch (init file) (hd start_requests) oc)"
    "c_inflight (deliver (start file) (0, oc)) =
       tl start_requests @ requests_of (res_yielded (dispatch (init file) (hd start_requests) oc))"
    "c_emitted (deliver (start file) (0, oc)) = items_of (res_yielded (dispatch (init file) (hd start_requests) oc))"
    "c_logged (deliver (start file) (0, oc)) =
       (case res_raised (dispatch (init file) (hd start_requests) oc) of None \<Rightarrow> [] | Some e \<Rightarrow> [e])"
    using l by (simp_all add: deliver_def start_def Let_def n d)
qed

lemma first_request:
  "dispatch s (hd start_requests) (Response doc) = parse s (listing_response 1 doc)"
  "dispatch s (hd start_requests) Failure = handle_error s (hd start_requests)"
proof -
  have h: "hd start_requests =
     \<lparr>r_url = Listing 1, r_callback = Cb_parse, r_errback = Some Eb_handle_error,
       r_meta = no_meta\<lparr>m_page := Some 1, m_dont_retry := Some False\<rparr>, r_priority = 0\<rparr>"
    using start_requests_head(1) by (metis list.sel(1))
  show "dispatch s (hd start_requests) (Response doc) = parse s (listing_response 1 doc)"
    "dispatch s (hd start_requests) Failure = handle_error s (hd start_requests)"
    unfolding h by (simp_all add: dispatch_def listing_response_def)
qed

lemma init_sel:
  "failed_pages (init file) = {}" "page_attempts (init file) pn = 0" "colleges_found (init file) = 0"
  "failed_colleges (ledger (init None)) = {}" "completed_colleges (ledger (init None)) = {}"
  by (simp_all add: init_def load_progress_def)

lemma run_one: "run c [ev] = deliver c ev"
  by (simp add: run_def)

section \<open>A listing page with too few blocks\<close>

lemma parse_count:
  "m_page (resp_meta resp) = Some pn \<Longrightarrow> is_valid_page resp \<Longrightarrow>
     colleges_found (res_spider (parse s resp)) =
       colleges_found s + int (length (filter b_col_md_12 (doc_card_boxes (resp_doc resp))))"
  by (auto simp: parse_def Let_def return_of_def retry_page_def returning_def yielding_def
      split: prod.splits dest: process_blocks_frame)

lemma parse_retry:
  assumes "m_page (resp_meta resp) = Some pn" "is_valid_page resp"
    "length (filter b_col_md_12 (doc_card_boxes (resp_doc resp))) < 10"
    "page_attempts s pn < 3"
  shows "res_yielded (parse s resp) = []"
    and "res_returned (parse s resp) \<noteq> None"
    and "page_attempts (res_spider (parse s resp)) = (page_attempts s)(pn := page_attempts s pn + 1)"
    and "store (res_spider (parse s resp)) = store s"
    and "failed_pages (res_spider (parse s resp)) = failed_pages s"
  using assms
  by (simp_all add: parse_def Let_def return_of_def retry_page_def returning_def)

text \<open>
  C4 (the code does not do what the claim says). The first listing page of a run comes
  back valid with 4 blocks, fewer than the minimum of 10. \<^verbatim>\<open>parse\<close> calls
  \<^verbatim>\<open>retry_page\<close>, which counts the attempt and builds the retry request, but \<^verbatim>\<open>parse\<close>
  is a generator and hands the request over with \<^verbatim>\<open>return\<close>: nothing is yielded. After
  the step the requests in flight are those of the pages 2 to 81, so page 1 is not
  fetched again and none of its blocks is processed; \<^verbatim>\<open>colleges_found\<close> has counted the
  4 blocks of the attempt all the same.
\<close>

theorem short_page_not_retried:
  "res_returned (parse (init None) (listing_response 1 (listing_doc four_links))) \<noteq> None
   \<and> res_yielded (parse (init None) (listing_response 1 (listing_doc four_links))) = []
   \<and> map (\<lambda>q. m_page (r_meta q))
        (c_inflight (run (start None) [(0, Response (listing_doc four_links))])) = map Some [2..81]
   \<and> c_emitted (run (start None) [(0, Response (listing_doc four_links))]) = []
   \<and> colleges_found (c_spider (run (start None) [(0, Response (listing_doc four_links))])) = 4
   \<and> page_attempts (c_spider (run (start None) [(0, Response (listing_doc four_links))])) 1 = 1"
proof -
  let ?resp = "listing_response 1 (listing_doc four_links)"
  have v: "is_valid_page ?resp" "m_page (resp_meta ?resp) = Some 1"
    by (simp_all add: listing_sel four_links_def)
  have l: "length (filter b_col_md_12 (doc_card_boxes (resp_doc ?resp))) < 10"
    by (simp add: listing_sel len4)
  have a: "page_attempts (init None) 1 < 3" by (simp add: init_sel)
  note r = parse_retry [OF v(2) v(1) l a]
  have c: "colleges_found (res_spider (parse (init None) ?resp)) = 4"
    using parse_count [OF v(2) v(1), of "init None"] by (simp add: listing_sel len4 init_sel)
  have p: "page_attempts (res_spider (parse (init None) ?resp)) 1 = 1"
    by (simp add: r(3) init_sel)
  show ?thesis
    by (simp add: run_one deliver_first first_request r(1) r(2) c p tl_start_requests_pages)
qed

section \<open>Giving up on a page\<close>

text \<open>
  C6 (the code does not do what the claim says). The first listing request of a run
  fails in transport: \<^verbatim>\<open>handle_error\<close> raises at line 539, no retry is scheduled, and
  page 1 is in neither failed set. The same request answered by an empty document:
  \<^verbatim>\<open>parse\<close> counts one attempt and returns the retry request of \<^verbatim>\<open>retry_page\<close> without
  yielding it, so the page is not fetched again, and again it is in neither failed set.
\<close>

theorem give_up_not_recorded:
  "map (\<lambda>q. m_page (r_meta q)) (c_inflight (run (start None) [(0, Failure)])) = map Some [2..81]
   \<and> c_logged (run (start None) [(0, Failure)]) = [AttributeError]
   \<and> failed_pages (c_spider (run (start None) [(0, Failure)])) = {}
   \<and> failed_colleges (ledger (c_spider (run (start None) [(0, Failure)]))) = {}
   \<and> map (\<lambda>q. m_page (r_meta q)) (c_inflight (run (start None) [(0, Response no_doc)]))
       = map Some [2..81]
   \<and> page_attempts (c_spider (run (start None) [(0, Response no_doc)])) 1 = 1
   \<and> failed_pages (c_spider (run (start None) [(0, Response no_doc)])) = {}
   \<and> failed_colleges (ledger (c_spider (run (start None) [(0, Response no_doc)]))) = {}"
proof -
  have h: "handle_error (init None) (hd start_requests) = raising (init None) [] AttributeError"
    by (simp add: handle_error_def set_append_def)
  have i: "\<not> is_valid_page (listing_response 1 no_doc)"
    by (simp add: is_valid_page_def listing_response_def no_doc_def)
  have p: "parse (init None) (listing_response 1 no_doc) =
      return_of (init None) (retry_page (init None) (listing_response 1 no_doc))"
    using i by (simp add: parse_def listing_sel handle_invalid_page_def)
  have r: "res_yielded (parse (init None) (listing_response 1 no_doc)) = []"
    "page_attempts (res_spider (parse (init None) (listing_response 1 no_doc))) 1 = 1"
    "failed_pages (res_spider (parse (init None) (listing_response 1 no_doc))) = {}"
    "failed_colleges (ledger (res_spider (parse (init None) (listing_response 1 no_doc)))) = {}"
    unfolding p
    by (simp_all add: retry_page_def listing_sel Let_def return_of_def returning_def init_sel)
  show ?thesis
    by (simp add: run_one deliver_first first_request h raising_def r tl_start_requests_pages
        init_sel)
qed

section \<open>Three tabs in any order\<close>

lemma upd3_perm:
  assumes "ka \<noteq> kb" "ka \<noteq> kc" "kb \<noteq> kc"
  shows "m(ka \<mapsto> va, kc \<mapsto> vc, kb \<mapsto> vb) = m(ka \<mapsto> va, kb \<mapsto> vb, kc \<mapsto> vc)"
    and "m(kb \<mapsto> vb, ka \<mapsto> va, kc \<mapsto> vc) = m(ka \<mapsto> va, kb \<mapsto> vb, kc \<mapsto> vc)"
    and "m(kb \<mapsto> vb, kc \<mapsto> vc, ka \<mapsto> va) = m(ka \<mapsto> va, kb \<mapsto> vb, kc \<mapsto> vc)"
    and "m(kc \<mapsto> vc, ka \<mapsto> va, kb \<mapsto> vb) = m(ka \<mapsto> va, kb \<mapsto> vb, kc \<mapsto> vc)"
    and "m(kc \<mapsto> vc, kb \<mapsto> vb, ka \<mapsto> va) = m(ka \<mapsto> va, kb \<mapsto> vb, kc \<mapsto> vc)"
  using assms by (auto simp: fun_upd_def)

lemma three_tabs_state:
  assumes "m_college_data (resp_meta resp) = Some r"
    and "tabs_to_fetch (doc_nav_tabs (resp_doc resp)) = Inr [ta, tb, tc]"
    and "nt_text ta = Some a" "nt_text tb = Some b" "nt_text tc = Some c"
    and "nt_href ta = Some ha" "nt_href tb = Some hb" "nt_href tc = Some hc"
  shows "res_yielded (parse_college_page s resp) =
      [Req \<lparr>r_url = Follow (resp_url resp) ha, r_callback = Cb_parse_tab_content, r_errback = None,
            r_meta = no_meta\<lparr>m_college_data := Some r, m_tab_title := Some (strip a)\<rparr>,
            r_priority = 0\<rparr>,
       Req \<lparr>r_url = Follow (resp_url resp) hb, r_callback = Cb_parse_tab_content, r_errback = None,
            r_meta = no_meta\<lparr>m_college_data := Some r, m_tab_title := Some (strip b)\<rparr>,
            r_priority = 0\<rparr>,
       Req \<lparr>r_url = Follow (resp_url resp) hc, r_callback = Cb_parse_tab_content, r_errback = None,
            r_meta = no_meta\<lparr>m_college_data := Some r, m_tab_title := Some (strip c)\<rparr>,
            r_priority = 0\<rparr>]"
    and "store (res_spider (parse_college_page s resp)) r ''tabs'' = Some (PDict Map.empty)"
    and "store (res_spider (parse_college_page s resp)) r ''tabs_pending'' = Some (PInt 3)"
  using assms
  by (simp_all add: parse_college_page_def Let_def yielding_def put_def)

lemma tab_step:
  assumes "r_callback q = Cb_parse_tab_content"
    and "m_college_data (r_meta q) = Some r" and "m_tab_title (r_meta q) = Some t"
    and "store s r ''tabs'' = Some (PDict tabs)"
    and "store s r ''tabs_pending'' = Some (PInt n)"
  shows "res_yielded (dispatch s q (Response doc)) = (if n = 1 then [Item r] else [])"
    and "store (res_spider (dispatch s q (Response doc))) r =
           (store s r)(''tabs'' \<mapsto> PDict (tabs(tab_key_of t \<mapsto> tab_data_of t doc)),
              ''tabs_pending'' := (if n = 1 then None else Some (PInt (n - 1))))"
  using assms
  by (auto simp: dispatch_def parse_tab_content_def Let_def yielding_def put_def pop_key_def)

lemma arrive3:
  assumes q: "r_callback q1 = Cb_parse_tab_content" "r_callback q2 = Cb_parse_tab_content"
      "r_callback q3 = Cb_parse_tab_content"
    and m: "m_college_data (r_meta q1) = Some r" "m_college_data (r_meta q2) = Some r"
      "m_college_data (r_meta q3) = Some r"
    and t: "m_tab_title (r_meta q1) = Some t1" "m_tab_title (r_meta q2) = Some t2"
      "m_tab_title (r_meta q3) = Some t3"
    and s: "store s r ''tabs'' = Some (PDict Map.empty)" "store s r ''tabs_pending'' = Some (PInt 3)"
  shows "snd (arrive s [(q1, d1), (q2, d2), (q3, d3)]) = [Item r]"
    and "store (fst (arrive s [(q1, d1), (q2, d2), (q3, d3)])) r =
           (store s r)(''tabs'' \<mapsto> PDict (Map.empty(tab_key_of t1 \<mapsto> tab_data_of t1 d1,
               tab_key_of t2 \<mapsto> tab_data_of t2 d2, tab_key_of t3 \<mapsto> tab_data_of t3 d3)),
             ''tabs_pending'' := None)"
proof -
  let ?s1 = "res_spider (dispatch s q1 (Response d1))"
  let ?s2 = "res_spider (dispatch ?s1 q2 (Response d2))"
  let ?s3 = "res_spider (dispatch ?s2 q3 (Response d3))"
  note a = tab_step [OF q(1) m(1) t(1) s, of d1]
  have s1: "store ?s1 r ''tabs'' = Some (PDict (Map.empty(tab_key_of t1 \<mapsto> tab_data_of t1 d1)))"
    "store ?s1 r ''tabs_pending'' = Some (PInt 2)"
    by (simp_all add: a(2))
  note b = tab_step [OF q(2) m(2) t(2) s1, of d2]
  have s2: "store ?s2 r ''tabs'' = Some (PDict (Map.empty(tab_key_of t1 \<mapsto> tab_data_of t1 d1,
       tab_key_of t2 \<mapsto> tab_data_of t2 d2)))"
    "store ?s2 r ''tabs_pending'' = Some (PInt 1)"
    by (simp_all add: b(2))
  note c = tab_step [OF q(3) m(3) t(3) s2, of d3]
  have fs: "fst (arrive s [(q1, d1), (q2, d2), (q3, d3)]) = ?s3"
    by (simp add: Let_def split: prod.splits)
  show "snd (arrive s [(q1, d1), (q2, d2), (q3, d3)]) = [Item r]"
    by (simp add: Let_def a(1) b(1) c(1) split: prod.splits)
  show "store (fst (arrive s [(q1, d1), (q2, d2), (q3, d3)])) r =
           (store s r)(''tabs'' \<mapsto> PDict (Map.empty(tab_key_of t1 \<mapsto> tab_data_of t1 d1,
               tab_key_of t2 \<mapsto> tab_data_of t2 d2, tab_key_of t3 \<mapsto> tab_data_of t3 d3)),
             ''tabs_pending'' := None)"
    unfolding fs by (rule ext) (simp add: a(2) b(2) c(2))
qed

text \<open>
  C7 (amended). Let the detail page of a college leave three tabs to fetch whose keys
  (the title without spaces, in lower case, with \<^verbatim>\<open>Tab\<close> appended) are pairwise
  different. Then the three tab responses, processed in any of the six orders, yield
  the dict exactly once, after the third, and the dict is the same in every order: the
  one of the detail page without \<^verbatim>\<open>tabs_pending\<close> and with the three sections under
  \<^verbatim>\<open>tabs\<close>, each under its key.
\<close>

theorem three_tabs_any_order:
  assumes "m_college_data (resp_meta resp) = Some r"
    and "tabs_to_fetch (doc_nav_tabs (resp_doc resp)) = Inr [ta, tb, tc]"
    and "nt_text ta = Some a" "nt_text tb = Some b" "nt_text tc = Some c"
    and "nt_href ta = Some ha" "nt_href tb = Some hb" "nt_href tc = Some hc"
    and "distinct [tab_key_of (strip a), tab_key_of (strip b), tab_key_of (strip c)]"
    and "requests_of (res_yielded (parse_college_page s resp)) = [qa, qb, qc]"
    and "arrivals \<in> set (orders3 (qa, da) (qb, db) (qc, dc))"
  shows "snd (arrive (res_spider (parse_college_page s resp)) arrivals) = [Item r]
     \<and> store (fst (arrive (res_spider (parse_college_page s resp)) arrivals)) r =
         (store (res_spider (parse_college_page s resp)) r)
           (''tabs'' \<mapsto> PDict (Map.empty
               (tab_key_of (strip a) \<mapsto> tab_data_of (strip a) da,
                tab_key_of (strip b) \<mapsto> tab_data_of (strip b) db,
                tab_key_of (strip c) \<mapsto> tab_data_of (strip c) dc)),
            ''tabs_pending'' := None)"
proof -
  note st = three_tabs_state [OF assms(1-8), of s]
  have qs: "r_callback qa = Cb_parse_tab_content" "r_callback qb = Cb_parse_tab_content"
      "r_callback qc = Cb_parse_tab_content"
      "m_college_data (r_meta qa) = Some r" "m_college_data (r_meta qb) = Some r"
      "m_college_data (r_meta qc) = Some r"
      "m_tab_title (r_meta qa) = Some (strip a)" "m_tab_title (r_meta qb) = Some (strip b)"
      "m_tab_title (r_meta qc) = Some (strip c)"
    using assms(10) unfolding st(1) by (auto simp: no_meta_def)
  have k: "tab_key_of (strip a) \<noteq> tab_key_of (strip b)" "tab_key_of (strip a) \<noteq> tab_key_of (strip c)"
    "tab_key_of (strip b) \<noteq> tab_key_of (strip c)"
    using assms(9) by auto
  note p = upd3_perm [OF k]
  from assms(11) consider
      "arrivals = [(qa, da), (qb, db), (qc, dc)]" | "arrivals = [(qa, da), (qc, dc), (qb, db)]"
    | "arrivals = [(qb, db), (qa, da), (qc, dc)]" | "arrivals = [(qb, db), (qc, dc), (qa, da)]"
    | "arrivals = [(qc, dc), (qa, da), (qb, db)]" | "arrivals = [(qc, dc), (qb, db), (qa, da)]"
    by (auto simp: orders3_def)
  then show ?thesis
  proof cases
    case 1
    show ?thesis unfolding 1
      using arrive3 [OF qs(1) qs(2) qs(3) qs(4) qs(5) qs(6) qs(7) qs(8) qs(9) st(2) st(3), of da db dc]
      by simp
  next
    case 2
    show ?thesis unfolding 2
      using arrive3 [OF qs(1) qs(3) qs(2) qs(4) qs(6) qs(5) qs(7) qs(9) qs(8) st(2) st(3), of da dc db]
      by (simp add: p)
  next
    case 3
    show ?thesis unfolding 3
      using arrive3 [OF qs(2) qs(1) qs(3) qs(5) qs(4) qs(6) qs(8) qs(7) qs(9) st(2) st(3), of db da dc]
      by (simp add: p)
  next
    case 4
    show ?thesis unfolding 4
      using arrive3 [OF qs(2) qs(3) qs(1) qs(5) qs(6) qs(4) qs(8) qs(9) qs(7) st(2) st(3), of db dc da]
      by (simp add: p)
  next
    case 5
    show ?thesis unfolding 5
      using arrive3 [OF qs(3) qs(1) qs(2) qs(6) qs(4) qs(5) qs(9) qs(7) qs(8) st(2) st(3), of dc da db]
      by (simp add: p)
  next
    case 6
    show ?thesis unfolding 6
      using arrive3 [OF qs(3) qs(2) qs(1) qs(6) qs(5) qs(4) qs(9) qs(8) qs(7) st(2) st(3), of dc db da]
      by (simp add: p)
  qed
qed

theorem three_tabs_any_order_witness:
  "snd (arrive (res_spider (parse_college_page (init None) (detail_response 0 (detail_doc three_tabs))))
      [(sample_tab_request 0 ''Cut Off'' ''/cutoff'', tab_doc ''C''),
       (sample_tab_request 0 ''Courses'' ''/courses'', tab_doc ''A''),
       (sample_tab_request 0 ''Admission'' ''/admission'', tab_doc ''B'')]) = [Item 0]
   \<and> store (fst (arrive (res_spider (parse_college_page (init None)
          (detail_response 0 (detail_doc three_tabs))))
      [(sample_tab_request 0 ''Cut Off'' ''/cutoff'', tab_doc ''C''),
       (sample_tab_request 0 ''Courses'' ''/courses'', tab_doc ''A''),
       (sample_tab_request 0 ''Admission'' ''/admission'', tab_doc ''B'')])) 0 ''tabs'' =
      Some (PDict (Map.empty
         (''coursesTab'' \<mapsto> tab_data_of ''Courses'' (tab_doc ''A''),
          ''admissionTab'' \<mapsto> tab_data_of ''Admission'' (tab_doc ''B''),
          ''cutoffTab'' \<mapsto> tab_data_of ''Cut Off'' (tab_doc ''C''))))"
proof -
  have rq: "requests_of (res_yielded (parse_college_page (init None)
        (detail_response 0 (detail_doc three_tabs)))) =
      [sample_tab_request 0 ''Courses'' ''/courses'', sample_tab_request 0 ''Admission'' ''/admission'',
       sample_tab_request 0 ''Cut Off'' ''/cutoff'']"
    using three_tabs_state(1) [OF detail_sel(1) fetch_three, of "'' Courses ''" "''Admission''" "''Cut Off''"
        "''/courses''" "''/admission''" "''/cutoff''" "init None"]
    by (simp add: tab_keys sample_tab_request_def detail_sel)
  show ?thesis
    using three_tabs_any_order [OF detail_sel(1) fetch_three _ _ _ _ _ _ _ rq,
        of "'' Courses ''" "''Admission''" "''Cut Off''" "''/courses''" "''/admission''" "''/cutoff''"
          "[(sample_tab_request 0 ''Cut Off'' ''/cutoff'', tab_doc ''C''),
            (sample_tab_request 0 ''Courses'' ''/courses'', tab_doc ''A''),
            (sample_tab_request 0 ''Admission'' ''/admission'', tab_doc ''B'')]"
          "tab_doc ''A''" "tab_doc ''B''" "tab_doc ''C''"]
    by (simp add: tab_keys orders3_def)
qed

theorem three_tabs_clash:
  "snd (arrive (res_spider (parse_college_page (init None) (detail_response 0 (detail_doc clashing_tabs))))
      [(sample_tab_request 0 ''Cut Off'' ''/cut-off'', tab_doc ''A''),
       (sample_tab_request 0 ''CutOff'' ''/cutoff'', tab_doc ''B''),
       (sample_tab_request 0 ''Fees'' ''/fees'', tab_doc ''C'')]) = [Item 0]
   \<and> store (fst (arrive (res_spider (parse_college_page (init None)
          (detail_response 0 (detail_doc clashing_tabs))))
      [(sample_tab_request 0 ''Cut Off'' ''/cut-off'', tab_doc ''A''),
       (sample_tab_request 0 ''CutOff'' ''/cutoff'', tab_doc ''B''),
       (sample_tab_request 0 ''Fees'' ''/fees'', tab_doc ''C'')])) 0 ''tabs'' =
      Some (PDict (Map.empty
         (''cutoffTab'' \<mapsto> tab_data_of ''CutOff'' (tab_doc ''B''),
          ''feesTab'' \<mapsto> tab_data_of ''Fees'' (tab_doc ''C''))))
   \<and> store (fst (arrive (res_spider (parse_college_page (init None)
          (detail_response 0 (detail_doc clashing_tabs))))
      [(sample_tab_request 0 ''CutOff'' ''/cutoff'', tab_doc ''B''),
       (sample_tab_request 0 ''Cut Off'' ''/cut-off'', tab_doc ''A''),
       (sample_tab_request 0 ''Fees'' ''/fees'', tab_doc ''C'')])) 0 ''tabs'' =
      Some (PDict (Map.empty
         (''cutoffTab'' \<mapsto> tab_data_of ''Cut Off'' (tab_doc ''A''),
          ''feesTab'' \<mapsto> tab_data_of ''Fees'' (tab_doc ''C''))))
   \<and> item_at (Some (tab_data_of ''CutOff'' (tab_doc ''B''))) ''tab'' = Some (PStr ''CutOff'')
   \<and> item_at (Some (tab_data_of ''Cut Off'' (tab_doc ''A''))) ''tab'' = Some (PStr ''Cut Off'')"
proof -
  let ?s1 = "res_spider (parse_college_page (init None) (detail_response 0 (detail_doc clashing_tabs)))"
  note st = three_tabs_state [OF detail_sel(1) fetch_clashing, of "''Cut Off''" "''CutOff''" "''Fees''"
        "''/cut-off''" "''/cutoff''" "''/fees''" "init None", simplified]
  note m = sample_tab_request_sel [where r = 0]
  note x = arrive3 [OF m(1) m(1) m(1) m(2) m(2) m(2) m(3) m(3) m(3) st(2) st(3)]
  show ?thesis
    by (simp add: x tab_keys tab_data_of_def del: arrive.simps)
qed

section \<open>A dict that is never completed\<close>

lemma stuck_iff:
  "stuck c r \<longleftrightarrow>
     r < next_ref (c_spider c) \<and> in_flight c Cb_parse_college_page r = 0 \<and> times_emitted c r = 0
     \<and> (\<exists>n. store (c_spider c) r ''tabs_pending'' = Some (PInt n)
            \<and> int (in_flight c Cb_parse_tab_content r) < n)"
  by (auto simp: stuck_def split: option.splits pyval.splits)

lemma stuck_quiet:
  assumes st: "stuck c r" and i: "i < length (c_inflight c)"
    and q: "res_spider (dispatch (c_spider c) (c_inflight c ! i) oc) = c_spider c"
      "res_yielded (dispatch (c_spider c) (c_inflight c ! i) oc) = []"
  shows "stuck (deliver c (i, oc)) r"
proof -
  let ?c = "deliver c (i, oc)"
  have sp: "c_spider ?c = c_spider c" and em: "c_emitted ?c = c_emitted c"
    using deliver_fields [OF i, of oc] q by simp_all
  have le: "in_flight ?c cb r \<le> in_flight c cb r" for cb
    using in_flight_deliver [OF i, of oc cb r] q by simp
  have te: "times_emitted ?c r = times_emitted c r"
    by (simp add: times_emitted_def em)
  show ?thesis
    using st le [of Cb_parse_college_page] le [of Cb_parse_tab_content]
    unfolding stuck_iff sp te by auto
qed

lemma stuck_listing:
  assumes s: "sound c" and st: "stuck c r" and i: "i < length (c_inflight c)"
    and cb: "r_callback (c_inflight c ! i) = Cb_parse"
  shows "stuck (deliver c (i, Response doc)) r"
proof -
  let ?c = "deliver c (i, Response doc)"
  let ?q = "c_inflight c ! i"
  let ?s = "c_spider c"
  define resp where "resp = \<lparr>resp_url = r_url ?q, resp_meta = r_meta ?q, resp_doc = doc\<rparr>"
  have d: "dispatch ?s ?q (Response doc) = parse ?s resp"
    by (simp add: dispatch_def cb resp_def)
  note eff = parse_effect [of ?s resp]
  let ?s' = "res_spider (parse ?s resp)"
  let ?new = "requests_of (res_yielded (parse ?s resp))"
  have sp: "c_spider ?c = ?s'" using deliver_fields(1) [OF i, of "Response doc"] d by simp
  have nr: "next_ref ?s \<le> next_ref ?s'" using eff by simp
  have lt: "r < next_ref ?s" using st by (simp add: stuck_iff)
  have old: "store ?s' r = store ?s r" using eff lt by simp
  have items: "items_of (res_yielded (parse ?s resp)) = []" using eff by simp
  have new: "\<And>q. q \<in> set ?new \<Longrightarrow> r_callback q = Cb_parse_college_page
         \<and> (\<exists>r. m_college_data (r_meta q) = Some r \<and> next_ref ?s \<le> r \<and> r < next_ref ?s')"
    using eff by blast
  have newT: "length (filter (carries Cb_parse_tab_content r) ?new) = 0"
    by (rule filter_none) (auto simp: carries_def dest: new)
  have newD: "length (filter (carries Cb_parse_college_page r) ?new) = 0"
    using lt by (intro filter_none) (auto simp: carries_def dest!: new)
  have D: "in_flight ?c Cb_parse_college_page r = in_flight c Cb_parse_college_page r"
    using in_flight_deliver [OF i, of "Response doc" Cb_parse_college_page r] d newD
    by (simp add: carries_def cb)
  have T: "in_flight ?c Cb_parse_tab_content r = in_flight c Cb_parse_tab_content r"
    using in_flight_deliver [OF i, of "Response doc" Cb_parse_tab_content r] d newT
    by (simp add: carries_def cb)
  have E: "times_emitted ?c r = times_emitted c r"
    using times_emitted_deliver [OF i, of "Response doc" r] d items by simp
  show ?thesis
    using st nr unfolding stuck_iff sp D T E old by auto
qed

lemma stuck_detail:
  assumes s: "sound c" and st: "stuck c r" and i: "i < length (c_inflight c)"
    and cb: "r_callback (c_inflight c ! i) = Cb_parse_college_page"
  shows "stuck (deliver c (i, Response doc)) r"
proof (cases "m_college_data (r_meta (c_inflight c ! i))")
  case None
  define resp where "resp = \<lparr>resp_url = r_url (c_inflight c ! i), resp_meta = r_meta (c_inflight c ! i), resp_doc = doc\<rparr>"
  have d: "dispatch (c_spider c) (c_inflight c ! i) (Response doc) = parse_college_page (c_spider c) resp"
    by (simp add: dispatch_def cb resp_def)
  have "m_college_data (resp_meta resp) = None" using None by (simp add: resp_def)
  from detail_effect_no_data [OF this, of "c_spider c"] show ?thesis
    by (intro stuck_quiet [OF st i]) (simp_all add: d)
next
  case (Some r0)
  let ?c = "deliver c (i, Response doc)"
  let ?q = "c_inflight c ! i"
  let ?s = "c_spider c"
  define resp where "resp = \<lparr>resp_url = r_url ?q, resp_meta = r_meta ?q, resp_doc = doc\<rparr>"
  have d: "dispatch ?s ?q (Response doc) = parse_college_page ?s resp"
    by (simp add: dispatch_def cb resp_def)
  have md: "m_college_data (resp_meta resp) = Some r0" using Some by (simp add: resp_def)
  let ?res = "parse_college_page ?s resp"
  let ?s' = "res_spider ?res"
  let ?new = "requests_of (res_yielded ?res)"
  let ?items = "items_of (res_yielded ?res)"
  note fr = detail_effect_frame [OF md, where s = "?s"]
  have sp: "c_spider ?c = ?s'" using deliver_fields(1) [OF i, of "Response doc"] d by simp
  have nr: "next_ref ?s' = next_ref ?s" by (rule fr(1))
  have qin: "?q \<in> set (c_inflight c)" using i by simp
  have cq: "carries Cb_parse_college_page r0 ?q" by (simp add: carries_def cb Some)
  then have "0 < in_flight c Cb_parse_college_page r0"
    unfolding in_flight_pos using qin by blast
  then have ne: "r \<noteq> r0" using st by (auto simp: stuck_iff)
  have newc: "\<forall>q \<in> set ?new. carries Cb_parse_tab_content r0 q" by (rule fr(3))
  have newD: "length (filter (carries Cb_parse_college_page r) ?new) = 0"
    by (rule filter_none) (use newc in \<open>auto simp: carries_def\<close>)
  have newT: "length (filter (carries Cb_parse_tab_content r) ?new) = 0"
    by (rule filter_none) (use newc ne in \<open>auto simp: carries_def\<close>)
  have D: "in_flight ?c Cb_parse_college_page r = in_flight c Cb_parse_college_page r"
    using in_flight_deliver [OF i, of "Response doc" Cb_parse_college_page r] d newD ne
    by (auto simp: carries_def cb Some)
  have T: "in_flight ?c Cb_parse_tab_content r = in_flight c Cb_parse_tab_content r"
    using in_flight_deliver [OF i, of "Response doc" Cb_parse_tab_content r] d newT
    by (auto simp: carries_def cb)
  have items_sub: "set ?items \<subseteq> {r0}"
    using detail_effect_count [OF md, where s = "?s"] by (auto split: if_splits)
  have "count_list ?items r = 0" using items_sub ne by (intro count_list_zero) auto
  then have E: "times_emitted ?c r = times_emitted c r"
    using times_emitted_deliver [OF i, of "Response doc" r] d by simp
  have old: "store ?s' r = store ?s r" using ne by (rule fr(2))
  show ?thesis
    using st unfolding stuck_iff sp D T E old nr by auto
qed

lemma stuck_tab:
  assumes s: "sound c" and st: "stuck c r" and i: "i < length (c_inflight c)"
    and cb: "r_callback (c_inflight c ! i) = Cb_parse_tab_content"
  shows "stuck (deliver c (i, Response doc)) r"
proof -
  let ?c = "deliver c (i, Response doc)"
  let ?q = "c_inflight c ! i"
  let ?s = "c_spider c"
  define resp where "resp = \<lparr>resp_url = r_url ?q, resp_meta = r_meta ?q, resp_doc = doc\<rparr>"
  have d: "dispatch ?s ?q (Response doc) = parse_tab_content ?s resp"
    by (simp add: dispatch_def cb resp_def)
  let ?res = "parse_tab_content ?s resp"
  show ?thesis
  proof (cases "m_college_data (r_meta ?q) = None \<or> m_tab_title (r_meta ?q) = None")
    case True
    then have "res_spider ?res = ?s \<and> res_yielded ?res = []"
      using tab_effect_no_data [of resp ?s] tab_effect_no_title [of resp ?s]
      by (auto simp: resp_def)
    then show ?thesis by (intro stuck_quiet [OF st i]) (simp_all add: d)
  next
    case False
    then obtain r0 title where md: "m_college_data (resp_meta resp) = Some r0"
      and mt: "m_tab_title (resp_meta resp) = Some title"
      by (auto simp: resp_def)
    let ?s' = "res_spider ?res"
    let ?items = "items_of (res_yielded ?res)"
    note fr = tab_effect_frame [OF md, where s = "?s"]
    have sp: "c_spider ?c = ?s'" using deliver_fields(1) [OF i, of "Response doc"] d by simp
    have nr: "next_ref ?s' = next_ref ?s" by (rule fr(2))
    have mdq: "m_college_data (r_meta ?q) = Some r0" using md by (simp add: resp_def)
    have new: "requests_of (res_yielded ?res) = []" by (rule fr(1))
    have D: "in_flight ?c Cb_parse_college_page r = in_flight c Cb_parse_college_page r"
      using in_flight_deliver [OF i, of "Response doc" Cb_parse_college_page r] d new
      by (auto simp: carries_def cb)
    have T: "in_flight ?c Cb_parse_tab_content r + (if r = r0 then 1 else 0)
             = in_flight c Cb_parse_tab_content r"
      using in_flight_deliver [OF i, of "Response doc" Cb_parse_tab_content r] d new
      by (auto simp: carries_def cb mdq)
    have E: "times_emitted ?c r = times_emitted c r + count_list ?items r"
      using times_emitted_deliver [OF i, of "Response doc" r] d by simp
    have ok0: "ref_ok (in_flight c Cb_parse_college_page r0) (in_flight c Cb_parse_tab_content r0)
                 (times_emitted c r0) (store ?s r0 ''tabs_pending'') (store ?s r0 ''tabs'')"
      by (rule soundD_ok [OF s])
    have T0: "in_flight ?c Cb_parse_tab_content r0 + 1 = in_flight c Cb_parse_tab_content r0"
      using in_flight_deliver [OF i, of "Response doc" Cb_parse_tab_content r0] d new
      by (auto simp: carries_def cb mdq)
    then have tpos: "0 < in_flight c Cb_parse_tab_content r0" by simp
    then obtain n t where p: "store ?s r0 ''tabs_pending'' = Some (PInt n)"
      and tv: "store ?s r0 ''tabs'' = Some (PDict t)"
      using ok0 by (auto simp: ref_ok_def)
    note cnt = tab_effect_count [OF md mt p tv]
    show ?thesis
    proof (cases "r = r0")
      case False
      then have old: "store ?s' r = store ?s r" by (rule fr(3))
      have "set ?items \<subseteq> {r0}" using cnt(1) by (auto split: if_splits)
      then have "count_list ?items r = 0" using False by (intro count_list_zero) auto
      then show ?thesis
        using st T False unfolding stuck_iff sp D E old nr by auto
    next
      case True
      have lt: "int (in_flight c Cb_parse_tab_content r0) < n"
        using st p unfolding True stuck_iff by auto
      then have n1: "n \<noteq> 1" using tpos by auto
      show ?thesis
        using st lt n1 T0 unfolding True stuck_iff sp D [unfolded True] E [unfolded True] nr
        by (auto simp: cnt)
    qed
  qed
qed

lemma stuck_deliver: "sound c \<Longrightarrow> stuck c r \<Longrightarrow> stuck (deliver c ev) r"
proof -
  assume s: "sound c" and st: "stuck c r"
  obtain i oc where ev: "ev = (i, oc)" by (cases ev)
  show ?thesis
  proof (cases "i < length (c_inflight c)")
    case False
    then show ?thesis using st by (simp add: ev deliver_idle)
  next
    case True
    show ?thesis
    proof (cases oc)
      case Failure
      then show ?thesis
        unfolding ev using dispatch_failure [of "c_spider c" "c_inflight c ! i"]
        by (intro stuck_quiet [OF st True]) simp_all
    next
      case (Response doc)
      then show ?thesis
        unfolding ev
        by (cases "r_callback (c_inflight c ! i)")
           (simp_all add: stuck_listing [OF s st True] stuck_detail [OF s st True]
              stuck_tab [OF s st True])
    qed
  qed
qed

lemma stuck_run: "sound c \<Longrightarrow> stuck c r \<Longrightarrow> stuck (run c evs) r"
  unfolding run_def
  by (induction evs arbitrary: c) (simp_all add: sound_deliver stuck_deliver)

lemma stuck_after_failure:
  assumes s: "sound c" and i: "i < length (c_inflight c)"
    and cq: "carries Cb_parse_tab_content r (c_inflight c ! i)"
  shows "stuck (deliver c (i, Failure)) r"
proof -
  let ?c = "deliver c (i, Failure)"
  note q = dispatch_failure [of "c_spider c" "c_inflight c ! i"]
  have sp: "c_spider ?c = c_spider c" and em: "c_emitted ?c = c_emitted c"
    using deliver_fields [OF i, of Failure] q by simp_all
  have T: "in_flight ?c Cb_parse_tab_content r + 1 = in_flight c Cb_parse_tab_content r"
    using in_flight_deliver [OF i, of Failure Cb_parse_tab_content r] q cq by simp
  have D: "in_flight ?c Cb_parse_college_page r \<le> in_flight c Cb_parse_college_page r"
    using in_flight_deliver [OF i, of Failure Cb_parse_college_page r] q by simp
  have te: "times_emitted ?c r = times_emitted c r"
    by (simp add: times_emitted_def em)
  have lt: "r < next_ref (c_spider c)"
    using s i cq unfolding sound_def carries_def by (metis nth_mem)
  have tpos: "0 < in_flight c Cb_parse_tab_content r" using T by simp
  from soundD_ok [OF s, of r] tpos obtain n where
    "store (c_spider c) r ''tabs_pending'' = Some (PInt n)"
    "int (in_flight c Cb_parse_tab_content r) \<le> n" "times_emitted c r = 0"
    "in_flight c Cb_parse_college_page r = 0"
    by (auto simp: ref_ok_def)
  then show ?thesis
    using T D lt unfolding stuck_iff sp te by auto
qed

section \<open>The sample run, step by step\<close>

lemma deliver_at:
  assumes "c_inflight c = xs @ q # ys" and "length xs = i"
  shows "c_spider (deliver c (i, oc)) = res_spider (dispatch (c_spider c) q oc)"
    and "c_inflight (deliver c (i, oc)) = xs @ ys @ requests_of (res_yielded (dispatch (c_spider c) q oc))"
    and "c_emitted (deliver c (i, oc)) = c_emitted c @ items_of (res_yielded (dispatch (c_spider c) q oc))"
proof -
  have i: "i < length (c_inflight c)" using assms by simp
  have n: "c_inflight c ! i = q" using assms by (simp add: nth_append)
  have t: "take i (c_inflight c) = xs" "drop (Suc i) (c_inflight c) = ys" using assms by simp_all
  show "c_spider (deliver c (i, oc)) = res_spider (dispatch (c_spider c) q oc)"
    "c_inflight (deliver c (i, oc)) = xs @ ys @ requests_of (res_yielded (dispatch (c_spider c) q oc))"
    "c_emitted (deliver c (i, oc)) = c_emitted c @ items_of (res_yielded (dispatch (c_spider c) q oc))"
    using deliver_fields [OF i, of oc] by (simp_all add: n t)
qed

lemma process_blocks_all:
  "\<forall>b \<in> set bs. \<exists>l. b_link b = Some l \<and> l \<noteq> [] \<and> l \<notin> completed_colleges (ledger s) \<Longrightarrow>
     length (requests_of (snd (process_blocks s resp pn i bs))) = length bs"
proof (induction bs arbitrary: s i)
  case Nil
  then show ?case by simp
next
  case (Cons b bs)
  let ?s1 = "(put s (next_ref s) (extract_college_data b))\<lparr>next_ref := Suc (next_ref s)\<rparr>"
  have "ledger ?s1 = ledger s" by (simp add: put_def)
  with Cons.prems have "\<forall>b \<in> set bs. \<exists>l. b_link b = Some l \<and> l \<noteq> [] \<and> l \<notin> completed_colleges (ledger ?s1)"
    by simp
  from Cons.IH [OF this, of "i + 1"] Cons.prems show ?case
    by (auto simp: Let_def split: prod.splits)
qed

lemma tl_start_requests_no_data: "q \<in> set (tl start_requests) \<Longrightarrow> m_college_data (r_meta q) = None"
  by (rule start_requests_no_data) (rule list.set_sel(2), auto simp: start_requests_def)

lemma process_blocks_head:
  assumes "l \<noteq> []" and "l \<notin> completed_colleges (ledger s)"
  shows "process_blocks s resp pn i (sample_block l # bs) =
     (fst (process_blocks ((put s (next_ref s) (extract_college_data (sample_block l)))
              \<lparr>next_ref := Suc (next_ref s)\<rparr>) resp pn (i + 1) bs),
      Req \<lparr>r_url = Follow (resp_url resp) l, r_callback = Cb_parse_college_page,
           r_errback = Some Eb_handle_error,
           r_meta = no_meta\<lparr>m_college_data := Some (next_ref s), m_page_number := Some pn,
             m_block_number := Some i, m_college_link := Some l,
             m_dont_retry := Some False, m_download_timeout := Some 180\<rparr>,
           r_priority = 5\<rparr>
      # snd (process_blocks ((put s (next_ref s) (extract_college_data (sample_block l)))
              \<lparr>next_ref := Suc (next_ref s)\<rparr>) resp pn (i + 1) bs))"
  using assms by (simp add: Let_def sample_block_sel split: prod.splits)

lemma ten_links_split:
  "map sample_block ten_links = sample_block ''/college'' # map sample_block (tl ten_links)"
  "length ten_links = 10" "ten_links \<noteq> []" "length (tl ten_links) = 9"
  "\<forall>l \<in> set (tl ten_links). l \<noteq> []"
  by (simp_all add: ten_links_def)

lemma after_listing:
  "\<exists>others. length others = 9
     \<and> (\<forall>q \<in> set others. m_college_data (r_meta q) \<noteq> Some 0)
     \<and> c_inflight (run (start None) [(0, Response (listing_doc ten_links))]) =
         tl start_requests @ sample_detail_request # others
     \<and> c_emitted (run (start None) [(0, Response (listing_doc ten_links))]) = []
     \<and> store (c_spider (run (start None) [(0, Response (listing_doc ten_links))])) 0 =
         extract_college_data (sample_block ''/college'')"
proof -
  define doc where "doc = listing_doc ten_links"
  define resp where "resp = listing_response 1 doc"
  define nine where "nine = map sample_block (tl ten_links)"
  let ?q = "\<lparr>r_url = Listing 1, r_callback = Cb_parse, r_errback = Some Eb_handle_error,
       r_meta = no_meta\<lparr>m_page := Some 1, m_dont_retry := Some False\<rparr>, r_priority = 0\<rparr>"
  define s0 where "s0 = (init None)\<lparr>colleges_found := 10\<rparr>"
  define sA where "sA = (put s0 (next_ref s0) (extract_college_data (sample_block ''/college'')))
      \<lparr>next_ref := Suc (next_ref s0)\<rparr>"
  define pb where "pb = process_blocks sA resp 1 2 nine"
  define others where "others = requests_of (snd pb)"
  have inf: "c_inflight (start None) = [] @ ?q # tl start_requests"
    using start_requests_head(1) by (simp add: start_def)
  have d: "dispatch (init None) ?q (Response doc) = parse (init None) resp"
    by (simp add: dispatch_def listing_response_def resp_def)
  have blocks: "filter b_col_md_12 (doc_card_boxes (resp_doc resp)) = sample_block ''/college'' # nine"
    by (simp add: resp_def doc_def listing_sel ten_links_split(1) nine_def)
  have v: "is_valid_page resp" "m_page (resp_meta resp) = Some 1"
    by (simp_all add: resp_def doc_def listing_sel ten_links_split)
  have len9: "length nine = 9" by (simp add: nine_def ten_links_split)
  have ps: "parse (init None) resp =
      (case process_blocks s0 resp 1 1 (sample_block ''/college'' # nine) of
         (s, outs) \<Rightarrow> yielding s outs)"
    by (simp add: parse_def Let_def blocks v len9 s0_def init_def del: process_blocks.simps)
  have led: "completed_colleges (ledger s0) = {}" "next_ref s0 = 0"
    by (simp_all add: s0_def init_def load_progress_def)
  have ru: "resp_url resp = Listing 1" by (simp add: resp_def listing_response_def)
  have pb1: "process_blocks s0 resp 1 1 (sample_block ''/college'' # nine) =
      (fst pb, Req sample_detail_request # snd pb)"
    using process_blocks_head [of "''/college''" s0 resp 1 1 nine]
    by (simp add: led pb_def sA_def sample_detail_request_def ru del: process_blocks.simps)
  have res: "res_spider (parse (init None) resp) = fst pb"
    "res_yielded (parse (init None) resp) = Req sample_detail_request # snd pb"
    unfolding ps pb1 by (simp_all add: yielding_def)
  obtain s' outs where pbe: "process_blocks sA resp 1 2 nine = (s', outs)"
    by (cases "process_blocks sA resp 1 2 nine")
  note eff = process_blocks_effect [OF pbe]
  have nA: "next_ref sA = Suc 0" by (simp add: sA_def led)
  have pbv: "pb = (s', outs)" by (simp add: pb_def pbe)
  have items: "items_of (snd pb) = []" using eff by (simp add: pbv)
  have st: "store (fst pb) 0 = store sA 0" using eff nA by (simp add: pbv)
  have oth: "\<forall>q \<in> set others. m_college_data (r_meta q) \<noteq> Some 0"
    using eff nA unfolding others_def pbv by fastforce
  have ledA: "completed_colleges (ledger sA) = {}"
    by (simp add: sA_def put_def led)
  have "\<forall>b \<in> set nine. \<exists>l. b_link b = Some l \<and> l \<noteq> [] \<and> l \<notin> completed_colleges (ledger sA)"
    using ten_links_split(5) by (auto simp: nine_def sample_block_sel ledA)
  from process_blocks_all [OF this, of resp 1 2]
  have len: "length others = 9"
    by (simp add: others_def pb_def len9 del: process_blocks.simps)
  note da = deliver_at [OF inf, of 0 "Response doc"]
  have c: "run (start None) [(0, Response (listing_doc ten_links))]
      = deliver (start None) (0, Response doc)"
    by (simp add: run_def doc_def)
  have sp0: "c_spider (start None) = init None" "c_emitted (start None) = []"
    by (simp_all add: start_def)
  have stA: "store sA 0 = extract_college_data (sample_block ''/college'')"
    by (simp add: sA_def put_def led)
  show ?thesis
    unfolding c
    apply (rule exI [of _ others])
    apply (intro conjI)
        apply (rule len)
       apply (rule oth)
      apply (simp add: da(2) sp0 d res others_def)
     apply (simp add: da(3) sp0 d res items)
    apply (simp add: da(1) sp0 d res st stA)
    done
qed

lemma start_requests_length: "length start_requests = 81"
  by (simp add: start_requests_def)

lemma run_two: "run c [ev1, ev2] = deliver (run c [ev1]) ev2"
  by (simp add: run_def)

lemma fetch_three_doc:
  "tabs_to_fetch (doc_nav_tabs (detail_doc three_tabs)) =
     Inr [\<lparr>nt_text = Some '' Courses '', nt_href = Some ''/courses''\<rparr>,
          \<lparr>nt_text = Some ''Admission'', nt_href = Some ''/admission''\<rparr>,
          \<lparr>nt_text = Some ''Cut Off'', nt_href = Some ''/cutoff''\<rparr>]"
  using fetch_three by (simp add: detail_sel)

lemma tab_deliver:
  assumes inf: "c_inflight c = pre @ sample_tab_request r t h # ys" and len: "length pre = i"
    and tv: "store (c_spider c) r ''tabs'' = Some (PDict tabs)"
    and p: "store (c_spider c) r ''tabs_pending'' = Some (PInt n)"
  shows "c_inflight (deliver c (i, Response doc)) = pre @ ys"
    and "c_emitted (deliver c (i, Response doc)) = c_emitted c @ (if n = 1 then [r] else [])"
    and "store (c_spider (deliver c (i, Response doc))) r ''tabs'' =
           Some (PDict (tabs(tab_key_of t \<mapsto> tab_data_of t doc)))"
    and "store (c_spider (deliver c (i, Response doc))) r ''tabs_pending'' =
           (if n = 1 then None else Some (PInt (n - 1)))"
proof -
  note da = deliver_at [OF inf len, of "Response doc"]
  note ts = tab_step [where q = "sample_tab_request r t h" and doc = doc,
      OF sample_tab_request_sel(1) sample_tab_request_sel(2) sample_tab_request_sel(3) tv p]
  show "c_inflight (deliver c (i, Response doc)) = pre @ ys"
    by (simp add: da(2) ts(1))
  show "c_emitted (deliver c (i, Response doc)) = c_emitted c @ (if n = 1 then [r] else [])"
    by (simp add: da(3) ts(1))
  show "store (c_spider (deliver c (i, Response doc))) r ''tabs'' =
           Some (PDict (tabs(tab_key_of t \<mapsto> tab_data_of t doc)))"
    by (simp add: da(1) ts(2))
  show "store (c_spider (deliver c (i, Response doc))) r ''tabs_pending'' =
           (if n = 1 then None else Some (PInt (n - 1)))"
    by (simp add: da(1) ts(2))
qed

lemma tab_fail:
  assumes inf: "c_inflight c = pre @ sample_tab_request r t h # ys" and len: "length pre = i"
  shows "c_inflight (deliver c (i, Failure)) = pre @ ys"
    and "c_emitted (deliver c (i, Failure)) = c_emitted c"
    and "c_spider (deliver c (i, Failure)) = c_spider c"
proof -
  note da = deliver_at [OF inf len, of Failure]
  have d: "dispatch (c_spider c) (sample_tab_request r t h) Failure = yielding (c_spider c) []"
    by (simp add: dispatch_def sample_tab_request_sel)
  show "c_inflight (deliver c (i, Failure)) = pre @ ys"
    "c_emitted (deliver c (i, Failure)) = c_emitted c"
    "c_spider (deliver c (i, Failure)) = c_spider c"
    by (simp_all add: da d yielding_def)
qed

lemma after_detail:
  "\<exists>pre. length pre = 89
     \<and> (\<forall>q \<in> set pre. m_college_data (r_meta q) \<noteq> Some 0)
     \<and> c_inflight (run (start None)
          [(0, Response (listing_doc ten_links)), (80, Response (detail_doc three_tabs))]) =
         pre @ [sample_tab_request 0 ''Courses'' ''/courses'',
                sample_tab_request 0 ''Admission'' ''/admission'',
                sample_tab_request 0 ''Cut Off'' ''/cutoff'']
     \<and> c_emitted (run (start None)
          [(0, Response (listing_doc ten_links)), (80, Response (detail_doc three_tabs))]) = []
     \<and> store (c_spider (run (start None)
          [(0, Response (listing_doc ten_links)), (80, Response (detail_doc three_tabs))])) 0 ''tabs''
         = Some (PDict Map.empty)
     \<and> store (c_spider (run (start None)
          [(0, Response (listing_doc ten_links)), (80, Response (detail_doc three_tabs))])) 0
            ''tabs_pending'' = Some (PInt 3)"
proof -
  define c1 where "c1 = run (start None) [(0, Response (listing_doc ten_links))]"
  from after_listing obtain others where len: "length others = 9"
    and oth: "\<forall>q \<in> set others. m_college_data (r_meta q) \<noteq> Some 0"
    and inf: "c_inflight c1 = tl start_requests @ sample_detail_request # others"
    and em: "c_emitted c1 = []"
    unfolding c1_def by blast
  define resp where "resp = \<lparr>resp_url = r_url sample_detail_request,
      resp_meta = r_meta sample_detail_request, resp_doc = detail_doc three_tabs\<rparr>"
  have d: "dispatch (c_spider c1) sample_detail_request (Response (detail_doc three_tabs))
      = parse_college_page (c_spider c1) resp"
    by (simp add: dispatch_def resp_def sample_detail_request_def)
  have md: "m_college_data (resp_meta resp) = Some 0"
    by (simp add: resp_def sample_detail_request_def)
  have ft: "tabs_to_fetch (doc_nav_tabs (resp_doc resp)) =
     Inr [\<lparr>nt_text = Some '' Courses '', nt_href = Some ''/courses''\<rparr>,
          \<lparr>nt_text = Some ''Admission'', nt_href = Some ''/admission''\<rparr>,
          \<lparr>nt_text = Some ''Cut Off'', nt_href = Some ''/cutoff''\<rparr>]"
    using fetch_three_doc by (simp add: resp_def)
  have ru: "resp_url resp = Follow (Listing 1) ''/college''"
    by (simp add: resp_def sample_detail_request_def)
  note st = three_tabs_state [OF md ft, of "'' Courses ''" "''Admission''" "''Cut Off''"
      "''/courses''" "''/admission''" "''/cutoff''" "c_spider c1", simplified]
  have y: "res_yielded (parse_college_page (c_spider c1) resp) =
      [Req (sample_tab_request 0 ''Courses'' ''/courses''),
       Req (sample_tab_request 0 ''Admission'' ''/admission''),
       Req (sample_tab_request 0 ''Cut Off'' ''/cutoff'')]"
    using st(1) by (simp add: tab_keys sample_tab_request_def ru)
  note da = deliver_at [OF inf start_requests_head(2), of "Response (detail_doc three_tabs)"]
  have c2: "run (start None)
          [(0, Response (listing_doc ten_links)), (80, Response (detail_doc three_tabs))]
      = deliver c1 (80, Response (detail_doc three_tabs))"
    by (simp add: run_two c1_def)
  show ?thesis
    unfolding c2
    apply (rule exI [of _ "tl start_requests @ others"])
    apply (intro conjI)
         apply (simp add: len start_requests_length)
        apply (use oth tl_start_requests_no_data in auto)[1]
       apply (simp add: da(2) d y)
      apply (simp add: da(3) d y em)
     apply (simp add: da(1) d st(2))
    apply (simp add: da(1) d st(3))
    done
qed

lemma after_first_tab:
  "\<exists>pre. length pre = 89
     \<and> (\<forall>q \<in> set pre. m_college_data (r_meta q) \<noteq> Some 0)
     \<and> c_inflight (run (start None) first_tab_run) =
         pre @ [sample_tab_request 0 ''Admission'' ''/admission'',
                sample_tab_request 0 ''Cut Off'' ''/cutoff'']
     \<and> c_emitted (run (start None) first_tab_run) = []
     \<and> store (c_spider (run (start None) first_tab_run)) 0 ''tabs'' =
         Some (PDict (Map.empty(tab_key_of ''Courses'' \<mapsto> tab_data_of ''Courses'' (tab_doc ''A''))))
     \<and> store (c_spider (run (start None) first_tab_run)) 0 ''tabs_pending'' = Some (PInt 2)"
proof -
  define c2 where "c2 = run (start None)
          [(0, Response (listing_doc ten_links)), (80, Response (detail_doc three_tabs))]"
  from after_detail obtain pre where len: "length pre = 89"
    and pre: "\<forall>q \<in> set pre. m_college_data (r_meta q) \<noteq> Some 0"
    and inf: "c_inflight c2 = pre @ sample_tab_request 0 ''Courses'' ''/courses''
                # [sample_tab_request 0 ''Admission'' ''/admission'',
                   sample_tab_request 0 ''Cut Off'' ''/cutoff'']"
    and em: "c_emitted c2 = []"
    and tv: "store (c_spider c2) 0 ''tabs'' = Some (PDict Map.empty)"
    and p: "store (c_spider c2) 0 ''tabs_pending'' = Some (PInt 3)"
    unfolding c2_def by auto
  define c3 where "c3 = deliver c2 (89, Response (tab_doc ''A''))"
  note s3 = tab_deliver [OF inf len tv p, of "tab_doc ''A''", folded c3_def, simplified]
  have r: "run (start None) first_tab_run = c3"
    by (simp add: first_tab_run_def run_def c3_def c2_def)
  show ?thesis
    unfolding r using len pre s3 em by auto
qed

lemma after_failed_tab:
  "c_emitted (run (start None) failed_tab_run) = []
   \<and> store (c_spider (run (start None) failed_tab_run)) 0 ''tabs_pending'' = Some (PInt 1)
   \<and> in_flight (run (start None) failed_tab_run) Cb_parse_tab_content 0 = 0
   \<and> in_flight (run (start None) failed_tab_run) Cb_parse_college_page 0 = 0"
proof -
  define c3 where "c3 = run (start None) first_tab_run"
  from after_first_tab obtain pre where len: "length pre = 89"
    and pre: "\<forall>q \<in> set pre. m_college_data (r_meta q) \<noteq> Some 0"
    and inf3: "c_inflight c3 = pre @ sample_tab_request 0 ''Admission'' ''/admission''
                # [sample_tab_request 0 ''Cut Off'' ''/cutoff'']"
    and em: "c_emitted c3 = []"
    and tv: "store (c_spider c3) 0 ''tabs'' =
         Some (PDict (Map.empty(tab_key_of ''Courses'' \<mapsto> tab_data_of ''Courses'' (tab_doc ''A''))))"
    and p: "store (c_spider c3) 0 ''tabs_pending'' = Some (PInt 2)"
    unfolding c3_def by auto
  define c4 where "c4 = deliver c3 (89, Failure)"
  note s4 = tab_fail [OF inf3 len, folded c4_def]
  have inf4: "c_inflight c4 = pre @ sample_tab_request 0 ''Cut Off'' ''/cutoff'' # []"
    using s4(1) by simp
  have tv4: "store (c_spider c4) 0 ''tabs'' =
      Some (PDict (Map.empty(tab_key_of ''Courses'' \<mapsto> tab_data_of ''Courses'' (tab_doc ''A''))))"
    and p4: "store (c_spider c4) 0 ''tabs_pending'' = Some (PInt 2)"
    using tv p by (simp_all add: s4(3))
  define c5 where "c5 = deliver c4 (89, Response (tab_doc ''C''))"
  note s5 = tab_deliver [OF inf4 len tv4 p4, of "tab_doc ''C''", folded c5_def, simplified]
  have r: "run (start None) failed_tab_run = c5"
    by (simp add: failed_tab_run_def run_def c5_def c4_def c3_def)
  have none: "in_flight c5 cb 0 = 0" for cb
    unfolding in_flight_def s5(1) using pre by (simp add: filter_empty_conv carries_def)
  show ?thesis
    unfolding r using s5(2) s5(4) s4(2) em none by simp
qed

lemma after_all_tabs:
  "c_emitted (run (start None) all_tabs_run) = [0]
   \<and> store (c_spider (run (start None) all_tabs_run)) 0 ''tabs_pending'' = None"
proof -
  define c3 where "c3 = run (start None) first_tab_run"
  from after_first_tab obtain pre where len: "length pre = 89"
    and inf3: "c_inflight c3 = pre @ sample_tab_request 0 ''Admission'' ''/admission''
                # [sample_tab_request 0 ''Cut Off'' ''/cutoff'']"
    and em: "c_emitted c3 = []"
    and tv: "store (c_spider c3) 0 ''tabs'' =
         Some (PDict (Map.empty(tab_key_of ''Courses'' \<mapsto> tab_data_of ''Courses'' (tab_doc ''A''))))"
    and p: "store (c_spider c3) 0 ''tabs_pending'' = Some (PInt 2)"
    unfolding c3_def by auto
  define c4 where "c4 = deliver c3 (89, Response (tab_doc ''B''))"
  note s4 = tab_deliver [OF inf3 len tv p, of "tab_doc ''B''", folded c4_def, simplified]
  have inf4: "c_inflight c4 = pre @ sample_tab_request 0 ''Cut Off'' ''/cutoff'' # []"
    using s4(1) by simp
  define c5 where "c5 = deliver c4 (89, Response (tab_doc ''C''))"
  note s5 = tab_deliver [OF inf4 len s4(3) s4(4), of "tab_doc ''C''", folded c5_def, simplified]
  have r: "run (start None) all_tabs_run = c5"
    by (simp add: all_tabs_run_def run_def c5_def c4_def c3_def)
  show ?thesis
    unfolding r using s5(2) s5(4) s4(2) em by simp
qed

section \<open>One emission per college\<close>

text \<open>
  C2. In every state of every run, for every college dict: the dict has been yielded
  as an item at most once, and its counter \<^verbatim>\<open>tabs_pending\<close>, where it has one, is not
  negative. When the detail page leaves no tab to fetch, \<^verbatim>\<open>parse_college_page\<close> yields
  the dict itself, at once.
\<close>

theorem emitted_at_most_once:
  "times_emitted (run (start file) evs) r \<le> 1
   \<and> (\<forall>n. store (c_spider (run (start file) evs)) r ''tabs_pending'' = Some (PInt n) \<longrightarrow> 0 \<le> n)
   \<and> (m_college_data (resp_meta resp) = Some r'
        \<and> tabs_to_fetch (doc_nav_tabs (resp_doc resp)) = Inr []
      \<longrightarrow> res_yielded (parse_college_page s resp) = [Item r'])"
proof -
  have "sound (run (start file) evs)" by (rule sound_run [OF sound_start])
  from soundD_ok [OF this, of r] show ?thesis
    by (auto simp: ref_ok_def parse_college_page_def Let_def yielding_def)
qed

theorem emitted_at_most_once_witness:
  "times_emitted (run (start None) all_tabs_run) 0 = 1
   \<and> store (c_spider (run (start None) failed_tab_run)) 0 ''tabs_pending'' = Some (PInt 1)
   \<and> tabs_to_fetch (doc_nav_tabs (detail_doc [(''Gallery'', ''/gallery'')])) = Inr []
   \<and> res_yielded (parse_college_page (init None)
        (detail_response 0 (detail_doc [(''Gallery'', ''/gallery'')]))) = [Item 0]"
  using emitted_at_most_once [of None all_tabs_run 0
      "detail_response 0 (detail_doc [(''Gallery'', ''/gallery'')])" 0 "init None"]
    emitted_at_most_once [of None failed_tab_run 0
      "detail_response 0 (detail_doc [(''Gallery'', ''/gallery'')])" 0 "init None"]
    after_all_tabs after_failed_tab
  by (simp add: times_emitted_def detail_sel strip_def is_space_def excluded_tabs_def)

section \<open>A tab request that fails\<close>

text \<open>
  C1 (amended). In any state of any run, let a tab request of a college fail. No
  handler runs: the spider is as before, so the counter is not decremented and no
  section is stored, and nothing is emitted. From then on, whatever happens in the
  run, the counter of the college stays above 0 and its dict is never emitted.
\<close>

theorem failed_tab_never_emitted:
  "i < length (c_inflight (run (start file) evs)) \<Longrightarrow>
   carries Cb_parse_tab_content r (c_inflight (run (start file) evs) ! i) \<Longrightarrow>
     c_spider (run (start file) (evs @ [(i, Failure)])) = c_spider (run (start file) evs)
     \<and> c_emitted (run (start file) (evs @ [(i, Failure)])) = c_emitted (run (start file) evs)
     \<and> times_emitted (run (start file) (evs @ (i, Failure) # later)) r = 0
     \<and> (\<exists>n. store (c_spider (run (start file) (evs @ (i, Failure) # later))) r ''tabs_pending''
               = Some (PInt n) \<and> 0 < n)"
proof -
  assume i: "i < length (c_inflight (run (start file) evs))"
    and cq: "carries Cb_parse_tab_content r (c_inflight (run (start file) evs) ! i)"
  let ?c = "run (start file) evs"
  have s: "sound ?c" by (rule sound_run [OF sound_start])
  have r1: "run (start file) (evs @ [(i, Failure)]) = deliver ?c (i, Failure)"
    by (simp add: run_def)
  have r2: "run (start file) (evs @ (i, Failure) # later) = run (deliver ?c (i, Failure)) later"
    by (simp add: run_def)
  note q = dispatch_failure [of "c_spider ?c" "c_inflight ?c ! i"]
  have a: "c_spider (deliver ?c (i, Failure)) = c_spider ?c"
    "c_emitted (deliver ?c (i, Failure)) = c_emitted ?c"
    using deliver_fields [OF i, of Failure] q by simp_all
  have "stuck (deliver ?c (i, Failure)) r" by (rule stuck_after_failure [OF s i cq])
  then have "stuck (run (deliver ?c (i, Failure)) later) r"
    by (rule stuck_run [OF sound_deliver [OF s]])
  then show ?thesis
    unfolding r1 r2 using a by (auto simp: stuck_iff)
qed

theorem failed_tab_never_emitted_witness:
  "carries Cb_parse_tab_content 0 (c_inflight (run (start None) first_tab_run) ! 89)
   \<and> times_emitted (run (start None) failed_tab_run) 0 = 0
   \<and> store (c_spider (run (start None) failed_tab_run)) 0 ''tabs_pending'' = Some (PInt 1)"
proof -
  from after_first_tab obtain pre where len: "length pre = 89"
    and inf: "c_inflight (run (start None) first_tab_run) =
         pre @ [sample_tab_request 0 ''Admission'' ''/admission'',
                sample_tab_request 0 ''Cut Off'' ''/cutoff'']"
    by auto
  have i: "89 < length (c_inflight (run (start None) first_tab_run))"
    by (simp add: inf len)
  have n: "c_inflight (run (start None) first_tab_run) ! 89 = sample_tab_request 0 ''Admission'' ''/admission''"
    by (simp add: inf nth_append len)
  have c: "carries Cb_parse_tab_content 0 (c_inflight (run (start None) first_tab_run) ! 89)"
    by (simp add: n carries_def sample_tab_request_sel)
  from failed_tab_never_emitted [OF i c, of "[(89, Response (tab_doc ''C''))]"] after_failed_tab c
  show ?thesis
    by (simp add: failed_tab_run_def)
qed

theorem failed_tab_leaves_item_pending:
  "c_emitted (run (start None) failed_tab_run) = []
   \<and> store (c_spider (run (start None) failed_tab_run)) 0 ''tabs_pending'' = Some (PInt 1)
   \<and> store (c_spider (run (start None) first_tab_run)) 0 ''tabs_pending'' = Some (PInt 2)
   \<and> in_flight (run (start None) failed_tab_run) Cb_parse_tab_content 0 = 0
   \<and> in_flight (run (start None) failed_tab_run) Cb_parse_college_page 0 = 0"
  using after_failed_tab after_first_tab by auto

section \<open>Colleges completed in an earlier run\<close>

lemma ledger_parse: "ledger (res_spider (parse s resp)) = ledger s"
  using parse_shape [of s resp] by (auto dest: process_blocks_frame)

lemma ledger_detail: "ledger (res_spider (parse_college_page s resp)) = ledger s"
  by (auto simp: parse_college_page_def Let_def raising_def yielding_def put_def
      split: option.splits sum.splits prod.splits)

lemma ledger_tab: "ledger (res_spider (parse_tab_content s resp)) = ledger s"
  by (auto simp: parse_tab_content_def Let_def raising_def yielding_def put_def
      split: option.splits pyval.splits)

lemma ledger_dispatch: "ledger (res_spider (dispatch s q oc)) = ledger s"
proof (cases oc)
  case Failure
  then show ?thesis using dispatch_failure [of s q] by simp
next
  case (Response doc)
  then show ?thesis
    by (cases "r_callback q") (simp_all add: dispatch_def ledger_parse ledger_detail ledger_tab)
qed

lemma requests_of_set: "q \<in> set (requests_of ys) \<longleftrightarrow> Req q \<in> set ys"
  by (induction ys rule: requests_of.induct) auto

lemma items_of_set: "r \<in> set (items_of ys) \<longleftrightarrow> Item r \<in> set ys"
  by (induction ys rule: items_of.induct) auto

lemma parse_requests:
  assumes "Req q \<in> set (res_yielded (parse s resp))"
  shows "r_callback q = Cb_parse_college_page
     \<and> (\<exists>l. m_college_link (r_meta q) = Some l \<and> l \<notin> completed_colleges (ledger s)
            \<and> r_url q = Follow (resp_url resp) l)"
proof -
  from parse_yields [OF assms] obtain s0 pn bs s' outs where
    pb: "process_blocks s0 resp pn 1 bs = (s', outs)" and y: "Req q \<in> set outs"
    and l: "ledger s0 = ledger s" by blast
  from process_blocks_links [OF pb y] l show ?thesis by auto
qed

lemma tab_requests_urls:
  "tab_requests resp r tabs = (outs, e) \<Longrightarrow> Req q \<in> set outs \<Longrightarrow>
     r_callback q = Cb_parse_tab_content \<and> (\<exists>t. r_url q = Follow (resp_url resp) t)"
  by (induction tabs arbitrary: outs e) (auto split: option.splits prod.splits)

lemma detail_requests:
  assumes "Req q \<in> set (res_yielded (parse_college_page s resp))"
  shows "r_callback q = Cb_parse_tab_content \<and> (\<exists>t. r_url q = Follow (resp_url resp) t)"
  using assms
  by (auto simp: parse_college_page_def Let_def raising_def yielding_def
      split: option.splits sum.splits prod.splits if_splits dest: tab_requests_urls)

lemma tab_no_requests: "Req q \<notin> set (res_yielded (parse_tab_content s resp))"
  by (auto simp: parse_tab_content_def Let_def raising_def yielding_def
      split: option.splits pyval.splits if_splits)

lemma new_requests_clean:
  assumes old: "r_callback q \<noteq> Cb_parse \<longrightarrow>
       (case college_of q of None \<Rightarrow> False | Some l \<Rightarrow> l \<notin> completed_colleges (ledger s))"
    and new: "q' \<in> set (requests_of (res_yielded (dispatch s q oc)))"
  shows "case college_of q' of None \<Rightarrow> False | Some l \<Rightarrow> l \<notin> completed_colleges (ledger s)"
proof (cases oc)
  case Failure
  then show ?thesis using new dispatch_failure [of s q] by simp
next
  case (Response doc)
  let ?resp = "\<lparr>resp_url = r_url q, resp_meta = r_meta q, resp_doc = doc\<rparr>"
  show ?thesis
  proof (cases "r_callback q")
    case Cb_parse
    then have "Req q' \<in> set (res_yielded (parse s ?resp))"
      using new Response by (simp add: dispatch_def requests_of_set)
    from parse_requests [OF this] show ?thesis by (auto simp: college_of_def)
  next
    case Cb_parse_college_page
    then have "Req q' \<in> set (res_yielded (parse_college_page s ?resp))"
      using new Response by (simp add: dispatch_def requests_of_set)
    from detail_requests [OF this] old Cb_parse_college_page show ?thesis
      by (auto simp: college_of_def)
  next
    case Cb_parse_tab_content
    then have "Req q' \<in> set (res_yielded (parse_tab_content s ?resp))"
      using new Response by (simp add: dispatch_def requests_of_set)
    then show ?thesis using tab_no_requests by blast
  qed
qed

lemma new_requests_callback:
  "q' \<in> set (requests_of (res_yielded (dispatch s q oc))) \<Longrightarrow> r_callback q' \<noteq> Cb_parse"
proof (cases oc)
  case Failure
  assume "q' \<in> set (requests_of (res_yielded (dispatch s q oc)))"
  then show ?thesis using Failure dispatch_failure [of s q] by simp
next
  case (Response doc)
  assume new: "q' \<in> set (requests_of (res_yielded (dispatch s q oc)))"
  let ?resp = "\<lparr>resp_url = r_url q, resp_meta = r_meta q, resp_doc = doc\<rparr>"
  show ?thesis
  proof (cases "r_callback q")
    case Cb_parse
    then have "Req q' \<in> set (res_yielded (parse s ?resp))"
      using new Response by (simp add: dispatch_def requests_of_set)
    from parse_requests [OF this] show ?thesis by auto
  next
    case Cb_parse_college_page
    then have "Req q' \<in> set (res_yielded (parse_college_page s ?resp))"
      using new Response by (simp add: dispatch_def requests_of_set)
    from detail_requests [OF this] show ?thesis by auto
  next
    case Cb_parse_tab_content
    then have "Req q' \<in> set (res_yielded (parse_tab_content s ?resp))"
      using new Response by (simp add: dispatch_def requests_of_set)
    then show ?thesis using tab_no_requests by blast
  qed
qed

lemma clean_deliver: "clean p c \<Longrightarrow> clean p (deliver c ev)"
proof -
  assume cl: "clean p c"
  obtain i oc where ev: "ev = (i, oc)" by (cases ev)
  show ?thesis
  proof (cases "i < length (c_inflight c)")
    case False
    then show ?thesis using cl by (simp add: ev deliver_idle)
  next
    case True
    let ?q = "c_inflight c ! i"
    have led: "ledger (c_spider c) = p" using cl by (simp add: clean_def)
    have qin: "?q \<in> set (c_inflight c)" using True by simp
    have old: "r_callback ?q \<noteq> Cb_parse \<longrightarrow>
       (case college_of ?q of None \<Rightarrow> False | Some l \<Rightarrow> l \<notin> completed_colleges (ledger (c_spider c)))"
      using cl qin unfolding clean_def by blast
    have l': "ledger (c_spider (deliver c (i, oc))) = p"
      using deliver_fields(1) [OF True, of oc] ledger_dispatch led by simp
    have "\<forall>q \<in> set (c_inflight (deliver c (i, oc))). r_callback q \<noteq> Cb_parse \<longrightarrow>
            (case college_of q of None \<Rightarrow> False | Some l \<Rightarrow> l \<notin> completed_colleges p)"
    proof (intro ballI impI)
      fix q assume q: "q \<in> set (c_inflight (deliver c (i, oc)))" and cb: "r_callback q \<noteq> Cb_parse"
      from q inflight_deliver_set [OF True, of oc]
      have "q \<in> set (c_inflight c)
          \<or> q \<in> set (requests_of (res_yielded (dispatch (c_spider c) ?q oc)))" by auto
      then show "case college_of q of None \<Rightarrow> False | Some l \<Rightarrow> l \<notin> completed_colleges p"
      proof
        assume "q \<in> set (c_inflight c)"
        then show ?thesis using cl cb unfolding clean_def by blast
      next
        assume "q \<in> set (requests_of (res_yielded (dispatch (c_spider c) ?q oc)))"
        from new_requests_clean [OF old this] led show ?thesis by (auto split: option.splits)
      qed
    qed
    then show ?thesis unfolding ev clean_def using l' by blast
  qed
qed

lemma clean_run: "clean p c \<Longrightarrow> clean p (run c evs)"
  unfolding run_def by (induction evs arbitrary: c) (simp_all add: clean_deliver)

lemma clean_start: "clean (load_progress file) (start file)"
  by (auto simp: clean_def start_def init_def start_requests_def)

lemma clean_emissions:
  "clean p c \<Longrightarrow> e \<in> set (emissions c evs) \<Longrightarrow>
     (case college_of (fst e) of None \<Rightarrow> False | Some l \<Rightarrow> l \<notin> completed_colleges p)"
proof (induction evs arbitrary: c)
  case Nil
  then show ?case by simp
next
  case (Cons ev evs)
  let ?i = "fst ev"
  let ?q = "c_inflight c ! ?i"
  let ?res = "dispatch (c_spider c) ?q (snd ev)"
  from Cons.prems(2) consider
    (now) "?i < length (c_inflight c)" "e \<in> Pair ?q ` set (items_of (res_yielded ?res))"
    | (later) "e \<in> set (emissions (deliver c ev) evs)"
    by (auto split: if_splits)
  then show ?case
  proof cases
    case later
    from Cons.IH [OF clean_deliver [OF Cons.prems(1)] later] show ?thesis .
  next
    case now
    then have fe: "fst e = ?q" and ne: "items_of (res_yielded ?res) \<noteq> []" by auto
    have "r_callback ?q \<noteq> Cb_parse"
    proof
      assume cb: "r_callback ?q = Cb_parse"
      have "items_of (res_yielded ?res) = []"
      proof (cases "snd ev")
        case Failure
        then show ?thesis using dispatch_failure [of "c_spider c" ?q] by simp
      next
        case (Response doc)
        then show ?thesis using parse_effect by (simp add: dispatch_def cb)
      qed
      with ne show False by simp
    qed
    moreover have "?q \<in> set (c_inflight c)" using now(1) by simp
    ultimately show ?thesis using Cons.prems(1) unfolding fe clean_def by blast
  qed
qed

lemma process_blocks_skip:
  assumes "l \<in> completed_colleges (ledger s)"
  shows "process_blocks s resp pn i (sample_block l # bs) =
     process_blocks ((put s (next_ref s) (extract_college_data (sample_block l)))
              \<lparr>next_ref := Suc (next_ref s)\<rparr>) resp pn (i + 1) bs"
  using assms by (simp add: Let_def sample_block_sel split: prod.splits)

lemma ten_links_others: "\<forall>l \<in> set (tl ten_links). l \<noteq> ''/college''"
  by (simp add: ten_links_def)

lemma after_listing_done:
  "length (c_inflight (run (start (Some one_done)) [(0, Response (listing_doc ten_links))])) = 89"
proof -
  define resp where "resp = listing_response 1 (listing_doc ten_links)"
  define nine where "nine = map sample_block (tl ten_links)"
  define s0 where "s0 = (init (Some one_done))\<lparr>colleges_found := 10\<rparr>"
  define sA where "sA = (put s0 (next_ref s0) (extract_college_data (sample_block ''/college'')))
      \<lparr>next_ref := Suc (next_ref s0)\<rparr>"
  have blocks: "filter b_col_md_12 (doc_card_boxes (resp_doc resp)) = sample_block ''/college'' # nine"
    by (simp add: resp_def listing_sel ten_links_split(1) nine_def)
  have v: "is_valid_page resp" "m_page (resp_meta resp) = Some 1"
    by (simp_all add: resp_def listing_sel ten_links_split)
  have len9: "length nine = 9" by (simp add: nine_def ten_links_split)
  have ps: "parse (init (Some one_done)) resp =
      (case process_blocks s0 resp 1 1 (sample_block ''/college'' # nine) of
         (s, outs) \<Rightarrow> yielding s outs)"
    by (simp add: parse_def Let_def blocks v len9 s0_def init_sel del: process_blocks.simps)
  have led: "completed_colleges (ledger s0) = {''/college''}"
    by (simp add: s0_def init_def load_progress_def one_done_def)
  have pb1: "process_blocks s0 resp 1 1 (sample_block ''/college'' # nine) =
      process_blocks sA resp 1 2 nine"
    using process_blocks_skip [of "''/college''" s0 resp 1 1 nine]
    by (simp add: led sA_def del: process_blocks.simps)
  have res: "res_yielded (parse (init (Some one_done)) resp) = snd (process_blocks sA resp 1 2 nine)"
    unfolding ps pb1 by (simp add: yielding_def split: prod.splits)
  have ledA: "completed_colleges (ledger sA) = {''/college''}"
    by (simp add: sA_def put_def led)
  have "\<forall>b \<in> set nine. \<exists>l. b_link b = Some l \<and> l \<noteq> [] \<and> l \<notin> completed_colleges (ledger sA)"
    using ten_links_split(5) ten_links_others by (auto simp: nine_def sample_block_sel ledA)
  from process_blocks_all [OF this, of resp 1 2]
  have len: "length (requests_of (snd (process_blocks sA resp 1 2 nine))) = 9"
    by (simp add: len9 del: process_blocks.simps)
  show ?thesis
    by (simp add: run_one deliver_first first_request resp_def [symmetric] res len
        start_requests_length del: process_blocks.simps)
qed

text \<open>
  C3. Let the progress file loaded at the start have the link \<^verbatim>\<open>X\<close> in its set of
  completed colleges. Then in every state of every run no request in flight is for
  \<^verbatim>\<open>X\<close> (neither its detail page nor one of its tabs), no item is emitted from a
  response of \<^verbatim>\<open>X\<close>, and the listing handler, called in that state on any response,
  yields no request for a block whose link is \<^verbatim>\<open>X\<close>.
\<close>

theorem completed_college_skipped:
  "X \<in> completed_colleges (load_progress file) \<Longrightarrow>
     (\<forall>q \<in> set (c_inflight (run (start file) evs)). college_of q \<noteq> Some X)
     \<and> (\<forall>e \<in> set (emissions (start file) evs). college_of (fst e) \<noteq> Some X)
     \<and> (\<forall>q. Req q \<in> set (res_yielded (parse (c_spider (run (start file) evs)) resp)) \<longrightarrow>
           m_college_link (r_meta q) \<noteq> Some X \<and> college_of q \<noteq> Some X)"
proof -
  assume X: "X \<in> completed_colleges (load_progress file)"
  let ?p = "load_progress file"
  let ?c = "run (start file) evs"
  have cl: "clean ?p ?c" by (rule clean_run [OF clean_start])
  have a: "\<forall>q \<in> set (c_inflight ?c). college_of q \<noteq> Some X"
  proof
    fix q assume q: "q \<in> set (c_inflight ?c)"
    show "college_of q \<noteq> Some X"
    proof (cases "r_callback q = Cb_parse")
      case True
      then show ?thesis by (simp add: college_of_def)
    next
      case False
      with cl q have "case college_of q of None \<Rightarrow> False | Some l \<Rightarrow> l \<notin> completed_colleges ?p"
        unfolding clean_def by blast
      with X show ?thesis by (auto split: option.splits)
    qed
  qed
  have b: "\<forall>e \<in> set (emissions (start file) evs). college_of (fst e) \<noteq> Some X"
  proof
    fix e assume "e \<in> set (emissions (start file) evs)"
    from clean_emissions [OF clean_start this] X show "college_of (fst e) \<noteq> Some X"
      by (auto split: option.splits)
  qed
  have led: "ledger (c_spider ?c) = ?p" using cl by (simp add: clean_def)
  have c: "\<forall>q. Req q \<in> set (res_yielded (parse (c_spider ?c) resp)) \<longrightarrow>
           m_college_link (r_meta q) \<noteq> Some X \<and> college_of q \<noteq> Some X"
  proof (intro allI impI)
    fix q assume "Req q \<in> set (res_yielded (parse (c_spider ?c) resp))"
    from parse_requests [OF this] X show "m_college_link (r_meta q) \<noteq> Some X \<and> college_of q \<noteq> Some X"
      by (auto simp: led college_of_def)
  qed
  show ?thesis using a b c by blast
qed

theorem completed_college_skipped_witness:
  "''/college'' \<in> completed_colleges (load_progress (Some one_done))
   \<and> filter (\<lambda>q. college_of q = Some ''/college'')
        (c_inflight (run (start (Some one_done)) [(0, Response (listing_doc ten_links))])) = []
   \<and> length (c_inflight (run (start (Some one_done)) [(0, Response (listing_doc ten_links))])) = 89
   \<and> college_of sample_detail_request = Some ''/college''
   \<and> length (c_inflight (run (start None) [(0, Response (listing_doc ten_links))])) = 90"
proof -
  have X: "''/college'' \<in> completed_colleges (load_progress (Some one_done))"
    by (simp add: load_progress_def one_done_def)
  from after_listing obtain others where "length others = 9"
    and "c_inflight (run (start None) [(0, Response (listing_doc ten_links))]) =
         tl start_requests @ sample_detail_request # others" by blast
  then have n: "length (c_inflight (run (start None) [(0, Response (listing_doc ten_links))])) = 90"
    by (simp add: start_requests_length)
  have c: "college_of sample_detail_request = Some ''/college''"
    by (simp add: college_of_def sample_detail_request_def)
  from completed_college_skipped [OF X, of "[(0, Response (listing_doc ten_links))]"]
  show ?thesis
    using X n c after_listing_done by (simp add: filter_empty_conv)
qed

end
